theory Spec2Isabelle
  imports Main "HOL-Library.AList"
begin

section \<open>JavaScript values\<close>

text \<open>
  The channel code is TypeScript; at run time message payloads, parsed frames and thrown
  values are untyped JavaScript values. The fragment needed here has \<open>undefined\<close>,
  \<open>null\<close>, booleans, integer-valued numbers, strings, arrays and plain objects (an
  association list in property order). Non-integer numbers, \<open>NaN\<close>, dates and functions
  are outside the fragment.
\<close>

datatype js =
    JUndefined
  | JNull
  | JBool bool
  | JNum int
  | JStr string
  | JArr "js list"
  | JObj "(string \<times> js) list"

text \<open>Thrown values: \<open>Error\<close> objects, distinguished by their constructor name.\<close>

datatype exn =
    Error string
  | TypeError string
  | SyntaxError string
  | ZodError string

text \<open>The text of \<^verbatim>\<open>`${error}`\<close> for an \<open>Error\<close> object.\<close>

fun exn_text :: "exn \<Rightarrow> string" where
  "exn_text (Error m) = ''Error: '' @ m"
| "exn_text (TypeError m) = ''TypeError: '' @ m"
| "exn_text (SyntaxError m) = ''SyntaxError: '' @ m"
| "exn_text (ZodError m) = ''ZodError: '' @ m"

text \<open>The state of a promise as its holder observes it.\<close>

datatype 'a promise = Fulfilled 'a | Rejected exn | Pending

text \<open>
  Reading a property \<open>v.k\<close> for the names \<open>id\<close>, \<open>data\<close> and \<open>timestamp\<close>, none of
  which exists on a built-in prototype: it throws on \<open>undefined\<close> and \<open>null\<close>, finds
  an own property of an object, and is \<open>undefined\<close> otherwise.
\<close>

fun get_prop :: "js \<Rightarrow> string \<Rightarrow> exn + js" where
  "get_prop JUndefined k = Inl (TypeError (''Cannot read properties of undefined (reading '' @ k @ '')''))"
| "get_prop JNull k = Inl (TypeError (''Cannot read properties of null (reading '' @ k @ '')''))"
| "get_prop (JObj kvs) k = Inr (case map_of kvs k of None \<Rightarrow> JUndefined | Some v \<Rightarrow> v)"
| "get_prop (JBool b) k = Inr JUndefined"
| "get_prop (JNum n) k = Inr JUndefined"
| "get_prop (JStr s) k = Inr JUndefined"
| "get_prop (JArr xs) k = Inr JUndefined"

text \<open>\<open>ToBoolean\<close>, which decides \<open>a || b\<close>.\<close>

fun truthy :: "js \<Rightarrow> bool" where
  "truthy JUndefined = False"
| "truthy JNull = False"
| "truthy (JBool b) = b"
| "truthy (JNum n) = (n \<noteq> 0)"
| "truthy (JStr s) = (s \<noteq> [])"
| "truthy (JArr xs) = True"
| "truthy (JObj kvs) = True"

section \<open>Platform primitives\<close>

text \<open>
  \<open>JSON.parse\<close>, \<open>JSON.stringify\<close> and the \<open>WebSocket\<close> constructor belong to the
  platform, not to the library. Every operation below takes them as a parameter, so the
  results hold for each platform; \<open>WebSocket_new\<close> says whether the constructor throws for
  a URL.
\<close>

record platform =
  JSON_parse :: "string \<Rightarrow> exn + js"
  JSON_stringify :: "js \<Rightarrow> exn + string"
  WebSocket_new :: "string \<Rightarrow> exn option"

subsection \<open>A JSON codec for integer-valued documents\<close>

text \<open>
  An executable instance of the two JSON primitives, following ECMA-262 on the fragment of
  \<^typ>\<open>js\<close>: \<open>JSON.stringify\<close> omits object properties whose value is
  \<open>undefined\<close> and writes \<open>null\<close> for such array elements; \<open>JSON.parse\<close> accepts
  white space between tokens. Number literals with a fraction or an exponent denote
  doubles and are not covered (the parser gives no value for them).
\<close>

function show_nat :: "nat \<Rightarrow> string" where
  "show_nat n =
     (if n < 10 then [char_of (48 + n)]
      else show_nat (n div 10) @ [char_of (48 + n mod 10)])"
  by pat_completeness auto
termination
  by (relation "measure id") auto

declare show_nat.simps [simp del]

definition show_int :: "int \<Rightarrow> string" where
  "show_int i = (if i < 0 then CHR ''-'' # show_nat (nat (- i)) else show_nat (nat i))"

definition hex_digit :: "nat \<Rightarrow> char" where
  "hex_digit d = (if d < 10 then char_of (48 + d) else char_of (87 + d))"

definition quote_char :: "char \<Rightarrow> string" where
  "quote_char c =
     (if c = CHR 0x22 then [CHR 0x5C, CHR 0x22]
      else if c = CHR 0x5C then [CHR 0x5C, CHR 0x5C]
      else if c = CHR 0x08 then [CHR 0x5C, CHR ''b'']
      else if c = CHR 0x0C then [CHR 0x5C, CHR ''f'']
      else if c = CHR 0x0A then [CHR 0x5C, CHR ''n'']
      else if c = CHR 0x0D then [CHR 0x5C, CHR ''r'']
      else if c = CHR 0x09 then [CHR 0x5C, CHR ''t'']
      else if (of_char c :: nat) < 32
        then [CHR 0x5C, CHR ''u'', CHR ''0'', CHR ''0'',
              hex_digit (of_char c div 16), hex_digit (of_char c mod 16)]
      else [c])"

definition QuoteJSONString :: "string \<Rightarrow> string" where
  "QuoteJSONString s = CHR 0x22 # concat (map quote_char s) @ [CHR 0x22]"

fun join_comma :: "string list \<Rightarrow> string" where
  "join_comma [] = []"
| "join_comma [t] = t"
| "join_comma (t # u # ts) = t @ CHR '','' # join_comma (u # ts)"

fun stringify :: "js \<Rightarrow> string option" where
  "stringify JUndefined = None"
| "stringify JNull = Some ''null''"
| "stringify (JBool b) = Some (if b then ''true'' else ''false'')"
| "stringify (JNum n) = Some (show_int n)"
| "stringify (JStr s) = Some (QuoteJSONString s)"
| "stringify (JArr xs) =
     Some (CHR ''['' #
       join_comma (map (\<lambda>x. case stringify x of None \<Rightarrow> ''null'' | Some t \<Rightarrow> t) xs)
       @ '']'')"
| "stringify (JObj kvs) =
     Some (CHR ''{'' #
       join_comma (concat (map (\<lambda>kv. case stringify (snd kv) of
                                        None \<Rightarrow> []
                                      | Some t \<Rightarrow> [QuoteJSONString (fst kv) @ CHR '':'' # t]) kvs))
       @ ''}'')"

fun skip_ws :: "string \<Rightarrow> string" where
  "skip_ws [] = []"
| "skip_ws (c # cs) =
     (if c = CHR '' '' \<or> c = CHR 0x09 \<or> c = CHR 0x0A \<or> c = CHR 0x0D then skip_ws cs
      else c # cs)"

fun strip_prefix :: "string \<Rightarrow> string \<Rightarrow> string option" where
  "strip_prefix [] s = Some s"
| "strip_prefix (p # ps) [] = None"
| "strip_prefix (p # ps) (c # cs) = (if p = c then strip_prefix ps cs else None)"

definition is_digit :: "char \<Rightarrow> bool" where
  "is_digit c = (48 \<le> (of_char c :: nat) \<and> (of_char c :: nat) \<le> 57)"

definition digits_val :: "string \<Rightarrow> nat" where
  "digits_val ds = foldl (\<lambda>a c. 10 * a + (of_char c - 48)) 0 ds"

definition parse_number :: "string \<Rightarrow> (js \<times> string) option" where
  "parse_number s =
     (let neg = (case s of [] \<Rightarrow> False | c # cs \<Rightarrow> c = CHR ''-'');
          s1 = (if neg then tl s else s);
          ds = takeWhile is_digit s1;
          r = dropWhile is_digit s1
      in if ds = [] \<or> (1 < length ds \<and> hd ds = CHR ''0'') then None
         else if (case r of [] \<Rightarrow> False
                  | c # cs \<Rightarrow> c = CHR ''.'' \<or> c = CHR ''e'' \<or> c = CHR ''E'') then None
         else Some (JNum (if neg then - int (digits_val ds) else int (digits_val ds)), r))"

definition hex_val :: "char \<Rightarrow> nat option" where
  "hex_val c =
     (let n = (of_char c :: nat)
      in if 48 \<le> n \<and> n \<le> 57 then Some (n - 48)
         else if 97 \<le> n \<and> n \<le> 102 then Some (n - 87)
         else if 65 \<le> n \<and> n \<le> 70 then Some (n - 55)
         else None)"

definition unescape :: "char \<Rightarrow> char option" where
  "unescape e =
     (if e = CHR 0x22 \<or> e = CHR 0x5C \<or> e = CHR ''/'' then Some e
      else if e = CHR ''b'' then Some (CHR 0x08)
      else if e = CHR ''f'' then Some (CHR 0x0C)
      else if e = CHR ''n'' then Some (CHR 0x0A)
      else if e = CHR ''r'' then Some (CHR 0x0D)
      else if e = CHR ''t'' then Some (CHR 0x09)
      else None)"

fun parse_string_body :: "string \<Rightarrow> string \<Rightarrow> (string \<times> string) option" where
  "parse_string_body acc [] = None"
| "parse_string_body acc (c # cs) =
     (if c = CHR 0x22 then Some (rev acc, cs)
      else if c = CHR 0x5C then
        (case cs of
           [] \<Rightarrow> None
         | e # cs' \<Rightarrow>
             if e = CHR ''u'' then
               (case cs' of
                  a # b # x # y # cs'' \<Rightarrow>
                    (case (hex_val a, hex_val b, hex_val x, hex_val y) of
                       (Some 0, Some 0, Some h, Some l) \<Rightarrow>
                         parse_string_body (char_of (16 * h + l) # acc) cs''
                     | _ \<Rightarrow> None)
                | _ \<Rightarrow> None)
             else (case unescape e of
                     None \<Rightarrow> None
                   | Some d \<Rightarrow> parse_string_body (d # acc) cs'))
      else if (of_char c :: nat) < 32 then None
      else parse_string_body (c # acc) cs)"

text \<open>A repeated key keeps its first position and takes the last value.\<close>

definition object_of :: "(string \<times> js) list \<Rightarrow> js" where
  "object_of kvs = JObj (foldl (\<lambda>al kv. AList.update (fst kv) (snd kv) al) [] kvs)"

fun parse_value :: "nat \<Rightarrow> string \<Rightarrow> (js \<times> string) option"
  and parse_elements :: "nat \<Rightarrow> js list \<Rightarrow> string \<Rightarrow> (js \<times> string) option"
  and parse_members :: "nat \<Rightarrow> (string \<times> js) list \<Rightarrow> string \<Rightarrow> (js \<times> string) option"
where
  "parse_value 0 s = None"
| "parse_value (Suc n) s =
     (case skip_ws s of
        [] \<Rightarrow> None
      | c # cs \<Rightarrow>
          if c = CHR ''n'' then map_option (Pair JNull) (strip_prefix ''ull'' cs)
          else if c = CHR ''t'' then map_option (Pair (JBool True)) (strip_prefix ''rue'' cs)
          else if c = CHR ''f'' then map_option (Pair (JBool False)) (strip_prefix ''alse'' cs)
          else if c = CHR 0x22 then
            map_option (\<lambda>(t, r). (JStr t, r)) (parse_string_body [] cs)
          else if c = CHR ''['' then
            (case skip_ws cs of
               [] \<Rightarrow> None
             | d # ds \<Rightarrow> if d = CHR '']'' then Some (JArr [], ds) else parse_elements n [] cs)
          else if c = CHR ''{'' then
            (case skip_ws cs of
               [] \<Rightarrow> None
             | d # ds \<Rightarrow> if d = CHR ''}'' then Some (JObj [], ds) else parse_members n [] cs)
          else parse_number (c # cs))"
| "parse_elements 0 acc s = None"
| "parse_elements (Suc n) acc s =
     (case parse_value n s of
        None \<Rightarrow> None
      | Some (v, r) \<Rightarrow>
          (case skip_ws r of
             [] \<Rightarrow> None
           | d # ds \<Rightarrow>
               if d = CHR '','' then parse_elements n (v # acc) ds
               else if d = CHR '']'' then Some (JArr (rev (v # acc)), ds)
               else None))"
| "parse_members 0 acc s = None"
| "parse_members (Suc n) acc s =
     (case skip_ws s of
        [] \<Rightarrow> None
      | q # s1 \<Rightarrow>
          if q \<noteq> CHR 0x22 then None
          else
            (case parse_string_body [] s1 of
               None \<Rightarrow> None
             | Some (k, s2) \<Rightarrow>
                 (case skip_ws s2 of
                    [] \<Rightarrow> None
                  | colon # s3 \<Rightarrow>
                      if colon \<noteq> CHR '':'' then None
                      else
                        (case parse_value n s3 of
                           None \<Rightarrow> None
                         | Some (v, r) \<Rightarrow>
                             (case skip_ws r of
                                [] \<Rightarrow> None
                              | d # ds \<Rightarrow>
                                  if d = CHR '','' then parse_members n ((k, v) # acc) ds
                                  else if d = CHR ''}'' then
                                    Some (object_of (rev ((k, v) # acc)), ds)
                                  else None)))))"

definition json_parse :: "string \<Rightarrow> exn + js" where
  "json_parse s =
     (case parse_value (2 * length s + 2) s of
        None \<Rightarrow> Inl (SyntaxError ''Unexpected token in JSON'')
      | Some (v, r) \<Rightarrow>
          if skip_ws r = [] then Inr v else Inl (SyntaxError ''Unexpected token in JSON''))"

text \<open>
  \<open>JSON.stringify\<close> yields the value \<open>undefined\<close> for \<open>undefined\<close>; the only consumer
  of the result is a transport's \<open>send\<close>, which writes that value as the text
  \<open>undefined\<close>. The library passes an object, for which the result is a string.
\<close>

definition json_stringify :: "js \<Rightarrow> exn + string" where
  "json_stringify v = (case stringify v of None \<Rightarrow> Inr ''undefined'' | Some t \<Rightarrow> Inr t)"



text \<open>What may follow the text of a value inside a document: nothing, a comma or a closing bracket.\<close>

definition follows_value :: "string \<Rightarrow> bool" where
  "follows_value rest =
     (case rest of [] \<Rightarrow> True | c # cs \<Rightarrow> c = CHR '','' \<or> c = CHR '']'' \<or> c = CHR ''}'')"

text \<open>
  A browser whose \<open>WebSocket\<close> constructor rejects, with a \<open>SyntaxError\<close>, every URL
  that does not start with the scheme \<open>ws:\<close> or \<open>wss:\<close>.
\<close>

definition browser :: platform where
  "browser =
     \<lparr> JSON_parse = json_parse,
       JSON_stringify = json_stringify,
       WebSocket_new = (\<lambda>u. if strip_prefix ''ws:'' u = None \<and> strip_prefix ''wss:'' u = None
                             then Some (SyntaxError ''The URL is invalid'') else None) \<rparr>"

section \<open>Message types (types.ts)\<close>

type_synonym MessageId = string

text \<open>
  \<open>Message\<close>: the fields \<open>id\<close>, \<open>data\<close> and \<open>timestamp\<close> (prefixed here, \<open>id\<close>
  being a HOL constant). On the receive path they hold whatever the parsed frame holds.
\<close>

record Message =
  msg_id :: js
  msg_data :: js
  msg_timestamp :: js

text \<open>
  \<open>MessageDefinition\<close>: the identifier and the data schema. The schema belongs to the
  validation library; \<open>schema_parse\<close> is its \<open>parse\<close>, which returns the validated
  data or throws.
\<close>

record MessageDefinition =
  def_id :: MessageId
  schema_parse :: "js \<Rightarrow> exn + js"

text \<open>
  A handler is a function object, compared by reference: it is modelled by its identity.
  What the application's function does when called is given by a \<open>behaviour\<close>: it
  returns, throws, or returns a promise that resolves, rejects or never settles.
\<close>

type_synonym MessageHandler = nat

datatype outcome = Returns | Throws exn | Resolves | Rejects exn | NeverSettles

type_synonym behaviour = "MessageHandler \<Rightarrow> js \<Rightarrow> Message \<Rightarrow> outcome"

section \<open>BaseChannel (base-channel.ts)\<close>

record BaseChannel =
  messageHandlers :: "(MessageId \<times> MessageHandler list) list"
  isConnected :: bool

text \<open>What a call does to the world outside the channel object.\<close>

datatype effect =
    Invoked MessageHandler js Message
  | ConsoleError string
  | SetTimeout int string
  | ConnectCalled string
  | ConnectResolved nat
  | ConnectRejected nat exn
  | DisconnectResolved
  | SocketSend nat string

text \<open>
  A JavaScript \<open>Set\<close> iterates in insertion order and holds a value once: a list
  without repetition.
\<close>

definition Set_add :: "'a \<Rightarrow> 'a list \<Rightarrow> 'a list" where
  "Set_add x xs = (if x \<in> set xs then xs else xs @ [x])"

definition Set_delete :: "'a \<Rightarrow> 'a list \<Rightarrow> 'a list" where
  "Set_delete x xs = removeAll x xs"

datatype idOrDefinition = ById MessageId | ByDefinition MessageDefinition

fun id_of :: "idOrDefinition \<Rightarrow> MessageId" where
  "id_of (ById i) = i"
| "id_of (ByDefinition d) = def_id d"

definition on :: "idOrDefinition \<Rightarrow> MessageHandler \<Rightarrow> 'a BaseChannel_scheme \<Rightarrow> 'a BaseChannel_scheme" where
  "on idOrDefinition handler c =
     (let i = id_of idOrDefinition;
          m = (if map_of (messageHandlers c) i = None
               then AList.update i [] (messageHandlers c)
               else messageHandlers c)
      in case map_of m i of
           None \<Rightarrow> c\<lparr>messageHandlers := m\<rparr>
         | Some hs \<Rightarrow> c\<lparr>messageHandlers := AList.update i (Set_add handler hs) m\<rparr>)"

definition off :: "idOrDefinition \<Rightarrow> MessageHandler \<Rightarrow> 'a BaseChannel_scheme \<Rightarrow> 'a BaseChannel_scheme" where
  "off idOrDefinition handler c =
     (let i = id_of idOrDefinition
      in case map_of (messageHandlers c) i of
           None \<Rightarrow> c
         | Some hs \<Rightarrow> c\<lparr>messageHandlers := AList.update i (Set_delete handler hs) (messageHandlers c)\<rparr>)"

text \<open>\<open>await handler(message.data, message)\<close>: a throw and a rejection both raise at the await.\<close>

fun await_handler :: "outcome \<Rightarrow> unit promise" where
  "await_handler Returns = Fulfilled ()"
| "await_handler Resolves = Fulfilled ()"
| "await_handler (Throws e) = Rejected e"
| "await_handler (Rejects e) = Rejected e"
| "await_handler NeverSettles = Pending"

text \<open>
  The loop over the handler set, with its inner \<open>try\<close>/\<open>catch\<close>. A handler whose promise
  never settles leaves the loop suspended at its \<open>await\<close>.
\<close>

fun dispatch :: "behaviour \<Rightarrow> Message \<Rightarrow> MessageHandler list \<Rightarrow> unit promise \<times> effect list" where
  "dispatch beh message [] = (Fulfilled (), [])"
| "dispatch beh message (handler # handlers) =
     (case await_handler (beh handler (msg_data message) message) of
        Pending \<Rightarrow> (Pending, [Invoked handler (msg_data message) message])
      | Rejected error \<Rightarrow>
          (let (r, es) = dispatch beh message handlers
           in (r, Invoked handler (msg_data message) message
                  # ConsoleError (''Message handler error: '' @ exn_text error) # es))
      | Fulfilled u \<Rightarrow>
          (let (r, es) = dispatch beh message handlers
           in (r, Invoked handler (msg_data message) message # es)))"

text \<open>
  The registry's keys are strings, and \<open>Map.get\<close> compares by \<open>SameValueZero\<close>: a message
  id that is not a string finds no entry.
\<close>

fun Map_get :: "(MessageId \<times> 'v) list \<Rightarrow> js \<Rightarrow> 'v option" where
  "Map_get m (JStr i) = map_of m i"
| "Map_get m JUndefined = None"
| "Map_get m JNull = None"
| "Map_get m (JBool b) = None"
| "Map_get m (JNum n) = None"
| "Map_get m (JArr xs) = None"
| "Map_get m (JObj kvs) = None"

text \<open>
  The \<open>Message\<close> literal built from the parsed frame; \<open>now\<close> is \<open>Date.now()\<close>. Reading
  a property of \<open>null\<close> or \<open>undefined\<close> throws.
\<close>

definition message_literal :: "js \<Rightarrow> int \<Rightarrow> exn + Message" where
  "message_literal parsed now =
     (case get_prop parsed ''id'' of
        Inl e \<Rightarrow> Inl e
      | Inr parsed_id \<Rightarrow>
     (case get_prop parsed ''data'' of
        Inl e \<Rightarrow> Inl e
      | Inr parsed_data \<Rightarrow>
     (case get_prop parsed ''timestamp'' of
        Inl e \<Rightarrow> Inl e
      | Inr parsed_timestamp \<Rightarrow>
          Inr \<lparr> msg_id = parsed_id, msg_data = parsed_data,
                msg_timestamp = (if truthy parsed_timestamp then parsed_timestamp
                                 else JNum now) \<rparr>)))"

text \<open>The body of the outer \<open>try\<close> of \<open>handleMessage\<close>.\<close>

definition handleMessage_try ::
  "platform \<Rightarrow> behaviour \<Rightarrow> int \<Rightarrow> string \<Rightarrow> 'a BaseChannel_scheme \<Rightarrow> exn + unit promise \<times> effect list" where
  "handleMessage_try P beh now rawMessage c =
     (case JSON_parse P rawMessage of
        Inl e \<Rightarrow> Inl e
      | Inr parsed \<Rightarrow>
     (case message_literal parsed now of
        Inl e \<Rightarrow> Inl e
      | Inr message \<Rightarrow>
          (case Map_get (messageHandlers c) (msg_id message) of
             None \<Rightarrow> Inr (Fulfilled (), [])
           | Some handlers \<Rightarrow> Inr (dispatch beh message handlers))))"

text \<open>
  \<open>handleMessage\<close>: the promise it returns, what it did outside the channel, and the
  channel afterwards.
\<close>

definition handleMessage ::
  "platform \<Rightarrow> behaviour \<Rightarrow> int \<Rightarrow> string \<Rightarrow> 'a BaseChannel_scheme
     \<Rightarrow> unit promise \<times> effect list \<times> 'a BaseChannel_scheme" where
  "handleMessage P beh now rawMessage c =
     (case handleMessage_try P beh now rawMessage c of
        Inl error \<Rightarrow> (Fulfilled (), [ConsoleError (''Failed to parse message: '' @ exn_text error)], c)
      | Inr (r, es) \<Rightarrow> (r, es, c))"

text \<open>The \<open>Message\<close> literal that \<open>validateAndSerialize\<close> builds and hands to \<open>JSON.stringify\<close>.\<close>

definition envelope :: "MessageId \<Rightarrow> js \<Rightarrow> int \<Rightarrow> js" where
  "envelope i d now = JObj [(''id'', JStr i), (''data'', d), (''timestamp'', JNum now)]"

definition validateAndSerialize :: "platform \<Rightarrow> int \<Rightarrow> MessageId \<Rightarrow> js \<Rightarrow> exn + string" where
  "validateAndSerialize P now i d = JSON_stringify P (envelope i d now)"

text \<open>
  \<open>sendMessage\<close>, over the abstract \<open>send\<close> of the concrete channel: a state transformer
  that returns the outcome of the call and what it did.
\<close>

definition sendMessage ::
  "(MessageId \<Rightarrow> js \<Rightarrow> 'c \<Rightarrow> (exn + unit) \<times> effect list \<times> 'c)
     \<Rightarrow> MessageDefinition \<Rightarrow> js \<Rightarrow> 'c \<Rightarrow> (exn + unit) \<times> effect list \<times> 'c" where
  "sendMessage send definition data c =
     (case schema_parse definition data of
        Inl error \<Rightarrow> (Inl error, [], c)
      | Inr validatedData \<Rightarrow> send (def_id definition) validatedData c)"

definition isOpen :: "'a BaseChannel_scheme \<Rightarrow> bool" where
  "isOpen c = isConnected c"

text \<open>The handlers that a list of effects shows as called, in call order.\<close>

fun invoked :: "effect list \<Rightarrow> (MessageHandler \<times> js \<times> Message) list" where
  "invoked [] = []"
| "invoked (Invoked h d m # es) = (h, d, m) # invoked es"
| "invoked (ConsoleError t # es) = invoked es"
| "invoked (SetTimeout n u # es) = invoked es"
| "invoked (ConnectCalled u # es) = invoked es"
| "invoked (ConnectResolved s # es) = invoked es"
| "invoked (ConnectRejected s e # es) = invoked es"
| "invoked (DisconnectResolved # es) = invoked es"
| "invoked (SocketSend s t # es) = invoked es"

text \<open>The handlers that a message with id \<open>i\<close> is dispatched to.\<close>

definition handlers_of :: "'a BaseChannel_scheme \<Rightarrow> MessageId \<Rightarrow> MessageHandler list" where
  "handlers_of c i = (case map_of (messageHandlers c) i of None \<Rightarrow> [] | Some hs \<Rightarrow> hs)"

text \<open>Each handler set of the registry holds a handler once, as a \<open>Set\<close> does.\<close>

definition registry_ok :: "'a BaseChannel_scheme \<Rightarrow> bool" where
  "registry_ok c = (\<forall>(i, hs) \<in> set (messageHandlers c). distinct hs)"

section \<open>BrowserChannel (browser-channel.ts)\<close>

datatype readyState = CONNECTING | OPEN | CLOSING | CLOSED

text \<open>
  A \<open>WebSocket\<close> object as the channel sees it: the URL it was constructed with, its
  \<open>readyState\<close>, the frames handed to its \<open>send\<close>, the promise of the \<open>connect\<close> call
  that constructed it (its \<open>onopen\<close> and \<open>onerror\<close> hold that promise's \<open>resolve\<close> and
  \<open>reject\<close>), and the number of \<open>handleClose\<close> listeners that \<open>disconnect\<close> has added
  and that have not run yet.
\<close>

record WebSocket =
  url :: string
  readyState :: readyState
  sent :: "string list"
  connectPromise :: "unit promise"
  closeListeners :: nat

text \<open>
  The channel object with the platform objects it reaches: the sockets it has constructed
  (\<open>ws\<close> is a reference, an index into \<open>sockets\<close>) and the reconnect timers it has
  pending, each with its delay and the URL its callback closes over.
\<close>

record BrowserChannel = BaseChannel +
  ws :: "nat option"
  reconnectAttempts :: nat
  maxReconnectAttempts :: int
  reconnectDelay :: int
  sockets :: "WebSocket list"
  timers :: "(int \<times> string) list"

definition new_BrowserChannel :: BrowserChannel where
  "new_BrowserChannel =
     \<lparr> messageHandlers = [], isConnected = False,
       ws = None, reconnectAttempts = 0, maxReconnectAttempts = 5, reconnectDelay = 1000,
       sockets = [], timers = [] \<rparr>"

definition lookup :: "'a list \<Rightarrow> nat \<Rightarrow> 'a option" where
  "lookup xs i = (if i < length xs then Some (xs ! i) else None)"

text \<open>\<open>this.ws\<close>, dereferenced; \<open>None\<close> when \<open>this.ws\<close> is \<open>null\<close>.\<close>

definition this_ws :: "BrowserChannel \<Rightarrow> WebSocket option" where
  "this_ws w = (case ws w of None \<Rightarrow> None | Some s \<Rightarrow> lookup (sockets w) s)"

definition new_WebSocket :: "string \<Rightarrow> WebSocket" where
  "new_WebSocket u =
     \<lparr> url = u, readyState = CONNECTING, sent = [], connectPromise = Pending, closeListeners = 0 \<rparr>"

text \<open>
  \<open>connect(url)\<close>. \<open>Inl e\<close>: the returned promise is rejected with \<open>e\<close> at once.
  \<open>Inr s\<close>: socket \<open>s\<close> was constructed and the returned promise is the one that the
  handlers of \<open>s\<close> settle.
\<close>

definition connect :: "platform \<Rightarrow> string \<Rightarrow> BrowserChannel \<Rightarrow> (exn + nat) \<times> effect list \<times> BrowserChannel" where
  "connect P u w =
     (if map_option readyState (this_ws w) = Some CONNECTING then
        (Inl (Error ''Connection already in progress''), [ConnectCalled u], w)
      else if map_option readyState (this_ws w) = Some OPEN then
        (Inl (Error ''Already connected''), [ConnectCalled u], w)
      else
        (case WebSocket_new P u of
           Some error \<Rightarrow>
             (Inl (Error (''Failed to create WebSocket: '' @ exn_text error)), [ConnectCalled u], w)
         | None \<Rightarrow>
             (Inr (length (sockets w)), [ConnectCalled u],
              w\<lparr>ws := Some (length (sockets w)), sockets := sockets w @ [new_WebSocket u]\<rparr>)))"

text \<open>\<open>resolve()\<close> or \<open>reject(error)\<close> of the promise of socket \<open>s\<close>: a promise settles once.\<close>

definition settle :: "nat \<Rightarrow> unit promise \<Rightarrow> effect \<Rightarrow> BrowserChannel \<Rightarrow> effect list \<times> BrowserChannel" where
  "settle s p e w =
     (case lookup (sockets w) s of
        None \<Rightarrow> ([], w)
      | Some sock \<Rightarrow>
          if connectPromise sock = Pending
          then ([e], w\<lparr>sockets := (sockets w)[s := sock\<lparr>connectPromise := p\<rparr>]\<rparr>)
          else ([], w))"

text \<open>The four handlers that \<open>connect(url)\<close> installs on the socket \<open>s\<close> it constructs.\<close>

definition onopen :: "nat \<Rightarrow> BrowserChannel \<Rightarrow> effect list \<times> BrowserChannel" where
  "onopen s w =
     settle s (Fulfilled ()) (ConnectResolved s) (w\<lparr>isConnected := True, reconnectAttempts := 0\<rparr>)"

definition onclose :: "string \<Rightarrow> BrowserChannel \<Rightarrow> effect list \<times> BrowserChannel" where
  "onclose u w =
     (let w1 = w\<lparr>isConnected := False\<rparr>
      in if int (reconnectAttempts w1) < maxReconnectAttempts w1
         then (let delay = reconnectDelay w1 * 2 ^ reconnectAttempts w1
               in ([SetTimeout delay u], w1\<lparr>timers := timers w1 @ [(delay, u)]\<rparr>))
         else ([], w1))"

definition onerror :: "nat \<Rightarrow> BrowserChannel \<Rightarrow> effect list \<times> BrowserChannel" where
  "onerror s w =
     settle s (Rejected (Error ''WebSocket error'')) (ConnectRejected s (Error ''WebSocket error'')) w"

definition onmessage ::
  "platform \<Rightarrow> behaviour \<Rightarrow> int \<Rightarrow> string \<Rightarrow> BrowserChannel \<Rightarrow> effect list \<times> BrowserChannel" where
  "onmessage P beh now event_data w = snd (handleMessage P beh now event_data w)"

text \<open>
  The callback that \<open>onclose\<close> passes to \<open>setTimeout\<close>: the rejection of the promise that
  \<open>connect\<close> returns goes to an empty \<open>catch\<close>.
\<close>

definition reconnect :: "platform \<Rightarrow> string \<Rightarrow> BrowserChannel \<Rightarrow> effect list \<times> BrowserChannel" where
  "reconnect P u w =
     snd (connect P u (w\<lparr>reconnectAttempts := Suc (reconnectAttempts w)\<rparr>))"

text \<open>\<open>ws.close()\<close>: a connecting or open socket starts closing.\<close>

definition WebSocket_close :: "WebSocket \<Rightarrow> WebSocket" where
  "WebSocket_close sock =
     (if readyState sock = CONNECTING \<or> readyState sock = OPEN
      then sock\<lparr>readyState := CLOSING\<rparr> else sock)"

text \<open>
  \<open>disconnect()\<close>: \<open>DisconnectResolved\<close> is emitted when the returned promise resolves;
  otherwise a \<open>handleClose\<close> listener waits for the close event of the socket.
\<close>

definition disconnect :: "BrowserChannel \<Rightarrow> effect list \<times> BrowserChannel" where
  "disconnect w =
     (case ws w of
        None \<Rightarrow> ([DisconnectResolved], w)
      | Some s \<Rightarrow>
          (case lookup (sockets w) s of
             None \<Rightarrow> ([DisconnectResolved], w)
           | Some sock \<Rightarrow>
               if readyState sock = CLOSED then ([DisconnectResolved], w)
               else ([], w\<lparr>sockets := (sockets w)
                        [s := WebSocket_close (sock\<lparr>closeListeners := Suc (closeListeners sock)\<rparr>)]\<rparr>)))"

definition BrowserChannel_send ::
  "platform \<Rightarrow> int \<Rightarrow> MessageId \<Rightarrow> js \<Rightarrow> BrowserChannel \<Rightarrow> (exn + unit) \<times> effect list \<times> BrowserChannel" where
  "BrowserChannel_send P now i d w =
     (case ws w of
        None \<Rightarrow> (Inl (Error ''WebSocket is not connected''), [], w)
      | Some s \<Rightarrow>
          (case lookup (sockets w) s of
             None \<Rightarrow> (Inl (Error ''WebSocket is not connected''), [], w)
           | Some sock \<Rightarrow>
               if readyState sock \<noteq> OPEN then (Inl (Error ''WebSocket is not connected''), [], w)
               else
                 (case validateAndSerialize P now i d of
                    Inl error \<Rightarrow> (Inl error, [], w)
                  | Inr serialized \<Rightarrow>
                      (Inr (), [SocketSend s serialized],
                       w\<lparr>sockets := (sockets w)[s := sock\<lparr>sent := sent sock @ [serialized]\<rparr>]\<rparr>))))"

definition setReconnectOptions :: "int \<Rightarrow> int \<Rightarrow> BrowserChannel \<Rightarrow> BrowserChannel" where
  "setReconnectOptions maxAttempts baseDelay w =
     w\<lparr>maxReconnectAttempts := maxAttempts, reconnectDelay := baseDelay\<rparr>"

subsection \<open>The event loop\<close>

text \<open>
  One task of the single-threaded event loop: a call by the application, an event that the
  platform delivers on a socket, or a timer that fires. A socket opens only while
  connecting, delivers messages only while open or closing, and reports an error or its
  close only before it is closed; an event that the platform cannot deliver leaves the
  state as it is. At a close event the \<open>onclose\<close> handler, installed first, runs before the
  \<open>handleClose\<close> listeners. A task runs to its end: other tasks that the real event loop
  could run while \<open>handleMessage\<close> waits at an \<open>await\<close> are not interleaved with it.
\<close>

datatype event =
    Call_connect string
  | Call_disconnect
  | Call_setReconnectOptions int int
  | Call_sendMessage MessageDefinition js int
  | Call_on idOrDefinition MessageHandler
  | Call_off idOrDefinition MessageHandler
  | Socket_open nat
  | Socket_error nat
  | Socket_close nat
  | Socket_message nat string int
  | Timer_fires nat

definition socket_close :: "nat \<Rightarrow> BrowserChannel \<Rightarrow> effect list \<times> BrowserChannel" where
  "socket_close s w =
     (case lookup (sockets w) s of
        None \<Rightarrow> ([], w)
      | Some sock \<Rightarrow>
          if readyState sock = CLOSED then ([], w)
          else
            (let w1 = w\<lparr>sockets := (sockets w)[s := sock\<lparr>readyState := CLOSED, closeListeners := 0\<rparr>]\<rparr>;
                 (es, w2) = onclose (url sock) w1
             in (es @ replicate (closeListeners sock) DisconnectResolved, w2)))"

definition socket_open :: "nat \<Rightarrow> BrowserChannel \<Rightarrow> effect list \<times> BrowserChannel" where
  "socket_open s w =
     (case lookup (sockets w) s of
        None \<Rightarrow> ([], w)
      | Some sock \<Rightarrow>
          if readyState sock \<noteq> CONNECTING then ([], w)
          else onopen s (w\<lparr>sockets := (sockets w)[s := sock\<lparr>readyState := OPEN\<rparr>]\<rparr>))"

definition socket_error :: "nat \<Rightarrow> BrowserChannel \<Rightarrow> effect list \<times> BrowserChannel" where
  "socket_error s w =
     (case lookup (sockets w) s of
        None \<Rightarrow> ([], w)
      | Some sock \<Rightarrow> if readyState sock = CLOSED then ([], w) else onerror s w)"

definition socket_message ::
  "platform \<Rightarrow> behaviour \<Rightarrow> nat \<Rightarrow> string \<Rightarrow> int \<Rightarrow> BrowserChannel \<Rightarrow> effect list \<times> BrowserChannel" where
  "socket_message P beh s raw now w =
     (case lookup (sockets w) s of
        None \<Rightarrow> ([], w)
      | Some sock \<Rightarrow>
          if readyState sock = OPEN \<or> readyState sock = CLOSING
          then onmessage P beh now raw w else ([], w))"

definition timer_fires :: "platform \<Rightarrow> nat \<Rightarrow> BrowserChannel \<Rightarrow> effect list \<times> BrowserChannel" where
  "timer_fires P n w =
     (case lookup (timers w) n of
        None \<Rightarrow> ([], w)
      | Some (delay, u) \<Rightarrow> reconnect P u (w\<lparr>timers := take n (timers w) @ drop (Suc n) (timers w)\<rparr>))"

fun step :: "platform \<Rightarrow> behaviour \<Rightarrow> event \<Rightarrow> BrowserChannel \<Rightarrow> effect list \<times> BrowserChannel" where
  "step P beh (Call_connect u) w = snd (connect P u w)"
| "step P beh Call_disconnect w = disconnect w"
| "step P beh (Call_setReconnectOptions m d) w = ([], setReconnectOptions m d w)"
| "step P beh (Call_sendMessage definition data now) w =
     snd (sendMessage (BrowserChannel_send P now) definition data w)"
| "step P beh (Call_on k h) w = ([], on k h w)"
| "step P beh (Call_off k h) w = ([], off k h w)"
| "step P beh (Socket_open s) w = socket_open s w"
| "step P beh (Socket_error s) w = socket_error s w"
| "step P beh (Socket_close s) w = socket_close s w"
| "step P beh (Socket_message s raw now) w = socket_message P beh s raw now w"
| "step P beh (Timer_fires n) w = timer_fires P n w"

text \<open>A run of the event loop: the effects of all tasks in order, and the final state.\<close>

fun run :: "platform \<Rightarrow> behaviour \<Rightarrow> event list \<Rightarrow> BrowserChannel \<Rightarrow> effect list \<times> BrowserChannel" where
  "run P beh [] w = ([], w)"
| "run P beh (ev # evs) w =
     (let (es, w1) = step P beh ev w;
          (es', w2) = run P beh evs w1
      in (es @ es', w2))"

text \<open>The timers set and the \<open>connect\<close> calls made, as a list of effects shows them.\<close>

fun timeouts :: "effect list \<Rightarrow> (int \<times> string) list" where
  "timeouts [] = []"
| "timeouts (SetTimeout d u # es) = (d, u) # timeouts es"
| "timeouts (Invoked h d m # es) = timeouts es"
| "timeouts (ConsoleError t # es) = timeouts es"
| "timeouts (ConnectCalled u # es) = timeouts es"
| "timeouts (ConnectResolved s # es) = timeouts es"
| "timeouts (ConnectRejected s e # es) = timeouts es"
| "timeouts (DisconnectResolved # es) = timeouts es"
| "timeouts (SocketSend s t # es) = timeouts es"

fun connects :: "effect list \<Rightarrow> string list" where
  "connects [] = []"
| "connects (ConnectCalled u # es) = u # connects es"
| "connects (Invoked h d m # es) = connects es"
| "connects (ConsoleError t # es) = connects es"
| "connects (SetTimeout d u # es) = connects es"
| "connects (ConnectResolved s # es) = connects es"
| "connects (ConnectRejected s e # es) = connects es"
| "connects (DisconnectResolved # es) = connects es"
| "connects (SocketSend s t # es) = connects es"

text \<open>
  Reconnect attempts that all fail: socket \<open>s\<close> reports an error and closes, the timer
  that the close left pending fires, and the same happens to the socket the timer's
  \<open>connect\<close> constructed.
\<close>

fun failing_rounds :: "nat \<Rightarrow> nat \<Rightarrow> event list" where
  "failing_rounds 0 s = []"
| "failing_rounds (Suc k) s =
     [Socket_error s, Socket_close s, Timer_fires 0] @ failing_rounds k (Suc s)"

text \<open>
  The situation in which reconnect attempts run: the channel's socket \<open>s\<close>, the last one
  constructed, was opened for \<open>u\<close> and is not closed yet, no timer is pending, and the
  platform's constructor accepts \<open>u\<close>.
\<close>

definition retrying :: "platform \<Rightarrow> string \<Rightarrow> nat \<Rightarrow> BrowserChannel \<Rightarrow> bool" where
  "retrying P u s w =
     (ws w = Some s \<and> length (sockets w) = Suc s \<and> readyState (sockets w ! s) \<noteq> CLOSED
      \<and> url (sockets w ! s) = u \<and> timers w = [] \<and> WebSocket_new P u = None)"

text \<open>
  What holds of the channel and its sockets after any run from a new channel: \<open>ws\<close> refers
  to a socket that exists, a socket that \<open>ws\<close> no longer refers to is closing or closed,
  and the channel is not marked connected while it has no socket or its socket is closed.
\<close>

definition consistent :: "BrowserChannel \<Rightarrow> bool" where
  "consistent w =
     (case ws w of
        None \<Rightarrow> sockets w = [] \<and> \<not> isConnected w
      | Some c \<Rightarrow>
          c < length (sockets w)
          \<and> (\<forall>i < length (sockets w). i \<noteq> c \<longrightarrow>
                 readyState (sockets w ! i) = CLOSING \<or> readyState (sockets w ! i) = CLOSED)
          \<and> (readyState (sockets w ! c) = CLOSED \<longrightarrow> \<not> isConnected w))"

section \<open>PeerChannel (peer-channel.ts)\<close>

record PeerChannelConfig =
  iceServers :: "string list"
  dataChannelConfig :: js
  connectionTimeout :: "int option"

text \<open>
  The fields of the class; the peer connection, the data channel, the signaling handler
  and the timeout are references to platform objects.
\<close>

record PeerChannel = BaseChannel +
  peerConnection :: "nat option"
  dataChannel :: "nat option"
  config :: PeerChannelConfig
  peerId :: string
  remotePeerId :: "string option"
  signalingHandler :: "nat option"
  connectionTimeout_timer :: "nat option"
  pendingIceCandidates :: "js list"

text \<open>
  \<open>connect\<close> declares no parameter; a caller that holds the channel as a \<open>BaseChannel\<close>
  passes a URL, which is ignored.
\<close>

definition PeerChannel_connect :: "string \<Rightarrow> PeerChannel \<Rightarrow> unit promise \<times> PeerChannel" where
  "PeerChannel_connect u c =
     (Rejected (Error ''Use createOffer() or handleOffer() to establish peer connection''), c)"

section \<open>Example values\<close>

definition ping_frame :: string where
  "ping_frame = ''{\"id\":\"ping\",\"data\":{\"n\":42},\"timestamp\":1000}''"

definition ping_parsed :: js where
  "ping_parsed =
     JObj [(''id'', JStr ''ping''), (''data'', JObj [(''n'', JNum 42)]), (''timestamp'', JNum 1000)]"

definition ping_message :: Message where
  "ping_message =
     \<lparr> msg_id = JStr ''ping'', msg_data = JObj [(''n'', JNum 42)], msg_timestamp = JNum 1000 \<rparr>"

text \<open>Handler 1 throws, handler 2 returns a promise that rejects, every other handler returns.\<close>

definition faulty :: behaviour where
  "faulty h d m =
     (if h = 1 then Throws (Error ''boom'')
      else if h = 2 then Rejects (Error ''late'')
      else Returns)"

definition three_handlers :: BaseChannel where
  "three_handlers = \<lparr> messageHandlers = [(''ping'', [1, 2, 3])], isConnected = True \<rparr>"

text \<open>A schema for \<open>{n: number}\<close>, and the definition of the \<open>ping\<close> message.\<close>

definition n_schema :: "js \<Rightarrow> exn + js" where
  "n_schema d =
     (case d of
        JObj kvs \<Rightarrow>
          (case map_of kvs ''n'' of
             Some (JNum n) \<Rightarrow> Inr (JObj [(''n'', JNum n)])
           | _ \<Rightarrow> Inl (ZodError ''Expected number''))
      | _ \<Rightarrow> Inl (ZodError ''Expected object''))"

definition ping :: MessageDefinition where
  "ping = \<lparr> def_id = ''ping'', schema_parse = n_schema \<rparr>"




text \<open>A frame whose timestamp is the number 0, and text that is not JSON.\<close>

definition epoch_frame :: string where
  "epoch_frame = ''{\"id\":\"ping\",\"data\":{\"n\":42},\"timestamp\":0}''"


text \<open>A channel after \<open>connect\<close> and the open event of its socket.\<close>

definition open_channel :: BrowserChannel where
  "open_channel =
     snd (run browser faulty [Call_connect ''ws://host'', Socket_open 0] new_BrowserChannel)"

section \<open>The handler registry\<close>









lemma set_update_cases:
  "(k', v') \<in> set (AList.update k v al) \<Longrightarrow> (k', v') \<in> set al \<or> (k', v') = (k, v)"
  by (induction al) (auto split: if_splits)

lemma distinct_Set_add: "distinct hs \<Longrightarrow> distinct (Set_add h hs)"
  by (simp add: Set_add_def)

lemma registry_ok_update:
  "(\<forall>(i, hs) \<in> set al. distinct hs) \<Longrightarrow> distinct v \<Longrightarrow> (\<forall>(i, hs) \<in> set (AList.update k v al). distinct hs)"
  by (auto dest!: set_update_cases)

lemma registry_ok_on: "registry_ok c \<Longrightarrow> registry_ok (on k h c)"
proof -
  assume ok: "registry_ok c"
  let ?m = "if map_of (messageHandlers c) (id_of k) = None
            then AList.update (id_of k) [] (messageHandlers c) else messageHandlers c"
  have m: "\<forall>(i, hs) \<in> set ?m. distinct hs"
    using ok registry_ok_update[of "messageHandlers c" "[]" "id_of k"]
    by (simp add: registry_ok_def)
  show ?thesis
  proof (cases "map_of ?m (id_of k)")
    case None
    then show ?thesis using m by (simp add: on_def Let_def registry_ok_def)
  next
    case (Some hs)
    then have "(id_of k, hs) \<in> set ?m" by (meson map_of_SomeD)
    with m have "distinct (Set_add h hs)" by (auto intro: distinct_Set_add)
    with m have "\<forall>(i, hs') \<in> set (AList.update (id_of k) (Set_add h hs) ?m). distinct hs'"
      by (rule registry_ok_update)
    with Some show ?thesis by (simp add: on_def Let_def registry_ok_def)
  qed
qed

lemma registry_ok_off: "registry_ok c \<Longrightarrow> registry_ok (off k h c)"
proof (cases "map_of (messageHandlers c) (id_of k)")
  case None
  assume "registry_ok c"
  with None show ?thesis by (simp add: off_def)
next
  case (Some hs)
  assume ok: "registry_ok c"
  from Some have "(id_of k, hs) \<in> set (messageHandlers c)" by (meson map_of_SomeD)
  with ok have "distinct (Set_delete h hs)" by (auto simp: registry_ok_def Set_delete_def distinct_removeAll)
  with ok have "\<forall>(i, hs') \<in> set (AList.update (id_of k) (Set_delete h hs) (messageHandlers c)). distinct hs'"
    unfolding registry_ok_def by (rule registry_ok_update)
  with Some show ?thesis by (simp add: off_def registry_ok_def)
qed

subsection \<open>Dispatch never fails and skips no handler\<close>



lemma invoked_dispatch_settled:
  "\<forall>g \<in> set hs. beh g (msg_data m) m \<noteq> NeverSettles \<Longrightarrow>
   invoked (snd (dispatch beh m hs)) = map (\<lambda>g. (g, msg_data m, m)) hs"
proof (induction hs)
  case Nil
  then show ?case by simp
next
  case (Cons h hs)
  then have "beh h (msg_data m) m \<noteq> NeverSettles" by simp
  then have "await_handler (beh h (msg_data m) m) \<noteq> Pending"
    by (cases "beh h (msg_data m) m") simp_all
  with Cons show ?case
    by (auto split: promise.splits prod.splits)
qed

lemma invoked_dispatch_prefix:
  "invoked (snd (dispatch beh m hs)) =
     map (\<lambda>g. (g, msg_data m, m))
       (take (Suc (length (takeWhile (\<lambda>g. beh g (msg_data m) m \<noteq> NeverSettles) hs))) hs)"
proof (induction hs)
  case Nil
  then show ?case by simp
next
  case (Cons h hs)
  show ?case
  proof (cases "beh h (msg_data m) m = NeverSettles")
    case True
    then show ?thesis by simp
  next
    case False
    then have "await_handler (beh h (msg_data m) m) \<noteq> Pending"
      by (cases "beh h (msg_data m) m") simp_all
    with False Cons show ?thesis
      by (auto split: promise.splits prod.splits)
  qed
qed


lemma handleMessage_state: "snd (snd (handleMessage P beh now raw c)) = c"
  by (simp add: handleMessage_def split: sum.splits prod.splits)


lemma handleMessage_dispatch:
  assumes "JSON_parse P raw = Inr parsed" and "message_literal parsed now = Inr m"
    and "Map_get (messageHandlers c) (msg_id m) = Some hs"
  shows "handleMessage P beh now raw c = (fst (dispatch beh m hs), snd (dispatch beh m hs), c)"
  using assms by (simp add: handleMessage_def handleMessage_try_def split: prod.splits)



lemma handleMessage_no_handlers:
  assumes "JSON_parse P raw = Inr parsed" and "message_literal parsed now = Inr m"
    and "Map_get (messageHandlers c) (msg_id m) = None"
  shows "handleMessage P beh now raw c = (Fulfilled (), [], c)"
  using assms by (simp add: handleMessage_def handleMessage_try_def)


lemma Map_get_handlers_of:
  "msg_id m = JStr i \<Longrightarrow> Map_get (messageHandlers c) (msg_id m) = Some hs \<Longrightarrow> handlers_of c i = hs"
  by (simp add: handlers_of_def)






subsection \<open>The example frame\<close>

lemma ping_frame_parsed: "JSON_parse browser ping_frame = Inr ping_parsed"
  by code_simp

lemma ping_parsed_message: "message_literal ping_parsed now = Inr ping_message"
  by (simp add: message_literal_def ping_parsed_def ping_message_def)


section \<open>Receiving and sending\<close>

lemma open_channel_eq:
  "open_channel =
     \<lparr> messageHandlers = [], isConnected = True,
       ws = Some 0, reconnectAttempts = 0, maxReconnectAttempts = 5, reconnectDelay = 1000,
       sockets = [\<lparr> url = ''ws://host'', readyState = OPEN, sent = [],
                    connectPromise = Fulfilled (), closeListeners = 0 \<rparr>],
       timers = [] \<rparr>"
  by (simp add: open_channel_def new_BrowserChannel_def connect_def this_ws_def lookup_def
      browser_def new_WebSocket_def socket_open_def onopen_def settle_def)




text \<open>
  Claim C3. When the definition's schema rejects the data, \<open>sendMessage\<close> fails with the
  schema's error and \<open>send\<close> is not called: this holds for every \<open>send\<close>, and for the
  socket channel's \<open>send\<close> the channel, its socket and the frames written to it are
  unchanged and nothing is done outside.
\<close>

theorem sendMessage_validation_failure:
  assumes "schema_parse d data = Inl e"
  shows "sendMessage send d data c = (Inl e, [], c)
    \<and> sendMessage (BrowserChannel_send P now) d data w = (Inl e, [], w)
    \<and> step P beh (Call_sendMessage d data now) w = ([], w)"
  using assms by (simp add: sendMessage_def)

text \<open>
  Claim C3, witness: a \<open>ping\<close> whose \<open>n\<close> is a string fails with the schema's error and
  leaves the open channel as it is, while a valid \<open>ping\<close> is written to the socket.
\<close>

theorem sendMessage_validation_failure_witness:
  "schema_parse ping (JObj [(''n'', JStr ''forty-two'')]) = Inl (ZodError ''Expected number'')
   \<and> sendMessage (BrowserChannel_send browser 5) ping (JObj [(''n'', JStr ''forty-two'')]) open_channel
       = (Inl (ZodError ''Expected number''), [], open_channel)
   \<and> sendMessage (BrowserChannel_send browser 5) ping (JObj [(''n'', JNum 42)]) open_channel
       = (Inr (), [SocketSend 0 ''{\"id\":\"ping\",\"data\":{\"n\":42},\"timestamp\":5}''],
          open_channel\<lparr>sockets := [\<lparr> url = ''ws://host'', readyState = OPEN,
             sent = [''{\"id\":\"ping\",\"data\":{\"n\":42},\"timestamp\":5}''],
             connectPromise = Fulfilled (), closeListeners = 0 \<rparr>]\<rparr>)"
proof -
  have bad: "schema_parse ping (JObj [(''n'', JStr ''forty-two'')]) = Inl (ZodError ''Expected number'')"
    by (simp add: ping_def n_schema_def)
  have good: "schema_parse ping (JObj [(''n'', JNum 42)]) = Inr (JObj [(''n'', JNum 42)])"
    by (simp add: ping_def n_schema_def)
  have ser: "validateAndSerialize browser 5 ''ping'' (JObj [(''n'', JNum 42)])
      = Inr ''{\"id\":\"ping\",\"data\":{\"n\":42},\"timestamp\":5}''"
    by code_simp
  have sent: "sendMessage (BrowserChannel_send browser 5) ping (JObj [(''n'', JNum 42)]) open_channel
       = (Inr (), [SocketSend 0 ''{\"id\":\"ping\",\"data\":{\"n\":42},\"timestamp\":5}''],
          open_channel\<lparr>sockets := [\<lparr> url = ''ws://host'', readyState = OPEN,
             sent = [''{\"id\":\"ping\",\"data\":{\"n\":42},\"timestamp\":5}''],
             connectPromise = Fulfilled (), closeListeners = 0 \<rparr>]\<rparr>)"
    using good ser
    by (simp add: sendMessage_def BrowserChannel_send_def open_channel_eq lookup_def ping_def)
  from sendMessage_validation_failure[OF bad, where send="BrowserChannel_send browser 5" and c=open_channel] bad sent
  show ?thesis by simp
qed

section \<open>The JSON codec gives back what it is given\<close>

subsection \<open>Numbers\<close>















subsection \<open>Strings\<close>







lemma parse_string_body_escape:
  assumes "unescape e = Some d" and "e \<noteq> CHR ''u''"
  shows "parse_string_body acc (CHR 0x5C # e # tail) = parse_string_body (d # acc) tail"
  using assms by simp





subsection \<open>Values\<close>









lemma follows_value_simps [simp]:
  "follows_value []" "follows_value (CHR '','' # cs)" "follows_value (CHR '']'' # cs)"
  "follows_value (CHR ''}'' # cs)"
  by (simp_all add: follows_value_def)
















section \<open>Timestamps and the round trip through JSON\<close>

lemma handleMessage_invoked_message:
  assumes "JSON_parse P raw = Inr parsed" and "message_literal parsed now = Inr m"
  shows "\<forall>(g, d, m') \<in> set (invoked (fst (snd (handleMessage P beh now raw c)))). d = msg_data m \<and> m' = m"
proof (cases "Map_get (messageHandlers c) (msg_id m)")
  case None
  with assms show ?thesis by (simp add: handleMessage_no_handlers)
next
  case (Some hs)
  with assms show ?thesis
    by (auto simp: handleMessage_dispatch invoked_dispatch_prefix dest: in_set_takeD)
qed

lemma message_literal_timestamp:
  assumes "message_literal parsed now = Inr m" and "get_prop parsed ''timestamp'' = Inr t"
  shows "msg_timestamp m = (if truthy t then t else JNum now)"
  using assms by (auto simp: message_literal_def split: sum.splits)


text \<open>
  Claim C6, as amended. On the send path the envelope handed to \<open>JSON.stringify\<close> carries
  the current time as its timestamp, whatever the payload holds. On the receive path the
  message given to the handlers carries the parsed timestamp when that is truthy, and the
  current time otherwise: the current time is substituted when the timestamp is absent and
  also when it is present but falsy (\<open>null\<close>, \<open>false\<close>, the number 0, the empty string);
  a non-zero number is passed on unchanged.
\<close>

theorem timestamp_substitution:
  "validateAndSerialize P now i d = JSON_stringify P (envelope i d now)
   \<and> get_prop (envelope i d now) ''timestamp'' = Inr (JNum now)
   \<and> (JSON_parse P raw = Inr parsed \<and> get_prop parsed ''timestamp'' = Inr t
        \<and> message_literal parsed now' = Inr m \<longrightarrow>
        msg_timestamp m = (if truthy t then t else JNum now')
        \<and> (t = JUndefined \<longrightarrow> msg_timestamp m = JNum now')
        \<and> (\<forall>n. t = JNum n \<and> n \<noteq> 0 \<longrightarrow> msg_timestamp m = t)
        \<and> (\<forall>(g, d', m') \<in> set (invoked (fst (snd (handleMessage P beh now' raw c)))). m' = m))"
proof -
  have recv: "msg_timestamp m = (if truthy t then t else JNum now')
        \<and> (t = JUndefined \<longrightarrow> msg_timestamp m = JNum now')
        \<and> (\<forall>n. t = JNum n \<and> n \<noteq> 0 \<longrightarrow> msg_timestamp m = t)
        \<and> (\<forall>(g, d', m') \<in> set (invoked (fst (snd (handleMessage P beh now' raw c)))). m' = m)"
    if "JSON_parse P raw = Inr parsed" "get_prop parsed ''timestamp'' = Inr t"
       "message_literal parsed now' = Inr m"
    using message_literal_timestamp[OF that(3) that(2)]
      handleMessage_invoked_message[OF that(1) that(3), of beh c]
    by auto
  show ?thesis
    using recv by (simp add: validateAndSerialize_def envelope_def)
qed

lemma ping_parsed_timestamp: "get_prop ping_parsed ''timestamp'' = Inr (JNum 1000)"
  by (simp add: ping_parsed_def)

text \<open>Claim C6, witness: the example frame carries the timestamp 1000, which the handlers see.\<close>

theorem timestamp_substitution_witness:
  "get_prop ping_parsed ''timestamp'' = Inr (JNum 1000)
   \<and> msg_timestamp ping_message = JNum 1000
   \<and> map (\<lambda>(g, d, m). msg_timestamp m)
        (invoked (fst (snd (handleMessage browser faulty 5 ping_frame three_handlers))))
      = [JNum 1000, JNum 1000, JNum 1000]"
proof -
  note T = timestamp_substitution[where P=browser and raw=ping_frame and parsed=ping_parsed
      and t="JNum 1000" and now'=5 and m=ping_message and beh=faulty and c=three_handlers]
  from T ping_frame_parsed ping_parsed_timestamp ping_parsed_message[of 5]
  have same: "\<forall>(g, d', m') \<in> set (invoked (fst (snd (handleMessage browser faulty 5 ping_frame three_handlers)))).
         m' = ping_message"
    and ts: "msg_timestamp ping_message = JNum 1000"
    by simp_all
  have hs: "Map_get (messageHandlers three_handlers) (msg_id ping_message) = Some [1, 2, 3]"
    by (simp add: three_handlers_def ping_message_def)
  have "map (\<lambda>(g, d, m). g)
        (invoked (fst (snd (handleMessage browser faulty 5 ping_frame three_handlers)))) = [1, 2, 3]"
    using handleMessage_dispatch[OF ping_frame_parsed ping_parsed_message hs, of faulty]
    by (simp add: faulty_def)
  then have len: "length (invoked (fst (snd (handleMessage browser faulty 5 ping_frame three_handlers)))) = 3"
    by (metis length_map length_Cons list.size(3) numeral_3_eq_3)
  from same ts have "map (\<lambda>(g, d, m). msg_timestamp m)
        (invoked (fst (snd (handleMessage browser faulty 5 ping_frame three_handlers))))
      = replicate (length (invoked (fst (snd (handleMessage browser faulty 5 ping_frame three_handlers))))) (JNum 1000)"
    by (auto simp: map_replicate_const[symmetric] intro!: map_cong)
  with len ping_parsed_timestamp ts show ?thesis
    by (simp add: numeral_3_eq_3)
qed

lemma epoch_frame_parsed:
  "JSON_parse browser epoch_frame
     = Inr (JObj [(''id'', JStr ''ping''), (''data'', JObj [(''n'', JNum 42)]), (''timestamp'', JNum 0)])"
  by code_simp

text \<open>
  Claim C6, counterexample to the claim as stated: a frame whose timestamp is present and is
  the number 0 reaches the handlers with the current time in its place.
\<close>

theorem timestamp_zero_replaced:
  "JSON_parse browser epoch_frame
     = Inr (JObj [(''id'', JStr ''ping''), (''data'', JObj [(''n'', JNum 42)]), (''timestamp'', JNum 0)])
   \<and> map (\<lambda>(g, d, m). msg_timestamp m)
        (invoked (fst (snd (handleMessage browser faulty 1700000000000 epoch_frame three_handlers))))
      = [JNum 1700000000000, JNum 1700000000000, JNum 1700000000000]"
proof -
  let ?m = "\<lparr> msg_id = JStr ''ping'', msg_data = JObj [(''n'', JNum 42)], msg_timestamp = JNum 1700000000000 \<rparr>"
  have lit: "message_literal (JObj [(''id'', JStr ''ping''), (''data'', JObj [(''n'', JNum 42)]), (''timestamp'', JNum 0)]) 1700000000000 = Inr ?m"
    by (simp add: message_literal_def)
  have hs: "Map_get (messageHandlers three_handlers) (msg_id ?m) = Some [1, 2, 3]"
    by (simp add: three_handlers_def)
  show ?thesis
    using handleMessage_dispatch[OF epoch_frame_parsed lit hs, of faulty] epoch_frame_parsed
    by (simp add: faulty_def)
qed






section \<open>Closing and reconnecting\<close>

lemma onclose_scheduled:
  "int (reconnectAttempts w) < maxReconnectAttempts w \<Longrightarrow>
   onclose u w =
     ([SetTimeout (reconnectDelay w * 2 ^ reconnectAttempts w) u],
      w\<lparr>isConnected := False,
        timers := timers w @ [(reconnectDelay w * 2 ^ reconnectAttempts w, u)]\<rparr>)"
  by (simp add: onclose_def Let_def)

lemma onclose_exhausted:
  "\<not> int (reconnectAttempts w) < maxReconnectAttempts w \<Longrightarrow>
   onclose u w = ([], w\<lparr>isConnected := False\<rparr>)"
  by (simp add: onclose_def Let_def)

lemma socket_close_open:
  assumes "lookup (sockets w) s = Some sock" and "readyState sock \<noteq> CLOSED" and "u0 = url sock"
  shows "socket_close s w =
    (let w1 = w\<lparr>sockets := (sockets w)[s := sock\<lparr>readyState := CLOSED, closeListeners := 0\<rparr>],
                 isConnected := False\<rparr>
     in if int (reconnectAttempts w) < maxReconnectAttempts w
        then (SetTimeout (reconnectDelay w * 2 ^ reconnectAttempts w) u0 # replicate (closeListeners sock) DisconnectResolved,
              w1\<lparr>timers := timers w @ [(reconnectDelay w * 2 ^ reconnectAttempts w, u0)]\<rparr>)
        else (replicate (closeListeners sock) DisconnectResolved, w1))"
  using assms by (simp add: socket_close_def onclose_def Let_def)

lemma timeouts_replicate [simp]: "timeouts (replicate n DisconnectResolved) = []"
  by (induction n) simp_all

lemma connects_replicate [simp]: "connects (replicate n DisconnectResolved) = []"
  by (induction n) simp_all

lemma disconnect_pending:
  assumes "ws w = Some s" and "lookup (sockets w) s = Some sock" and "readyState sock \<noteq> CLOSED"
  shows "disconnect w =
     ([], w\<lparr>sockets := (sockets w)[s := WebSocket_close (sock\<lparr>closeListeners := Suc (closeListeners sock)\<rparr>)]\<rparr>)"
  using assms by (simp add: disconnect_def)

lemma lookup_update: "lookup xs i = Some x \<Longrightarrow> lookup (xs[i := y]) i = Some y"
  by (auto simp: lookup_def split: if_splits)

lemma lookup_length: "lookup xs i = Some x \<Longrightarrow> i < length xs"
  by (auto simp: lookup_def split: if_splits)

text \<open>
  Claim C1, as amended. An explicit \<open>disconnect()\<close> on a socket that is not closed yet
  adds a close listener and closes the socket; the close event that follows runs the same
  \<open>onclose\<close> handler as any other closure. At that event the promise of \<open>disconnect\<close>
  resolves, \<open>isOpen()\<close> is false, and a reconnect is scheduled after
  \<open>reconnectDelay * 2 ^ reconnectAttempts\<close> ms exactly when
  \<open>reconnectAttempts < maxReconnectAttempts\<close>: the closure is not retried only when the
  attempt budget is exhausted, as after \<open>setReconnectOptions(0, d)\<close>.
\<close>

theorem disconnect_then_close:
  assumes "ws w = Some s" and "lookup (sockets w) s = Some sock" and "readyState sock \<noteq> CLOSED"
  shows "fst (disconnect w) = []
    \<and> DisconnectResolved \<in> set (fst (socket_close s (snd (disconnect w))))
    \<and> \<not> isOpen (snd (socket_close s (snd (disconnect w))))
    \<and> timeouts (fst (socket_close s (snd (disconnect w))))
        = (if int (reconnectAttempts w) < maxReconnectAttempts w
           then [(reconnectDelay w * 2 ^ reconnectAttempts w, url sock)] else [])
    \<and> timers (snd (socket_close s (snd (disconnect w))))
        = timers w @ timeouts (fst (socket_close s (snd (disconnect w))))"
proof -
  let ?sock = "WebSocket_close (sock\<lparr>closeListeners := Suc (closeListeners sock)\<rparr>)"
  let ?w1 = "w\<lparr>sockets := (sockets w)[s := ?sock]\<rparr>"
  have d: "disconnect w = ([], ?w1)"
    using assms by (rule disconnect_pending)
  have l: "lookup (sockets ?w1) s = Some ?sock"
    using assms(2) by (simp add: lookup_update)
  have r: "readyState ?sock \<noteq> CLOSED"
    using assms(3) by (simp add: WebSocket_close_def)
  have u: "url sock = url ?sock" and n: "closeListeners ?sock = Suc (closeListeners sock)"
    by (simp_all add: WebSocket_close_def)
  show ?thesis
    unfolding d using socket_close_open[OF l r u] n
    by (simp add: Let_def isOpen_def)
qed

text \<open>
  Claim C1, witness: with the default policy the closure after \<open>disconnect()\<close> sets a
  timer of 1000 ms; with a budget of 0 attempts it sets none.
\<close>

theorem disconnect_then_close_witness:
  "timeouts (fst (socket_close 0 (snd (disconnect open_channel)))) = [(1000, ''ws://host'')]
   \<and> timeouts (fst (socket_close 0 (snd (disconnect (setReconnectOptions 0 1000 open_channel))))) = []"
proof -
  let ?sock = "\<lparr> url = ''ws://host'', readyState = OPEN, sent = [],
                connectPromise = Fulfilled (), closeListeners = 0 \<rparr>"
  have a: "ws open_channel = Some 0" "lookup (sockets open_channel) 0 = Some ?sock" "readyState ?sock \<noteq> CLOSED"
    by (simp_all add: open_channel_eq lookup_def)
  have b: "ws (setReconnectOptions 0 1000 open_channel) = Some 0"
    "lookup (sockets (setReconnectOptions 0 1000 open_channel)) 0 = Some ?sock"
    by (simp_all add: open_channel_eq lookup_def setReconnectOptions_def)
  from disconnect_then_close[OF a] disconnect_then_close[OF b a(3)]
  show ?thesis by (simp add: open_channel_eq setReconnectOptions_def)
qed

lemmas browser_simps =
  new_BrowserChannel_def connect_def this_ws_def lookup_def browser_def new_WebSocket_def
  socket_open_def onopen_def settle_def socket_close_def onclose_def socket_error_def onerror_def
  disconnect_def WebSocket_close_def timer_fires_def reconnect_def setReconnectOptions_def

text \<open>
  Claim C1, counterexample to the claim as stated: after \<open>connect\<close>, the open event,
  \<open>disconnect()\<close> and the close event, a reconnect timer is pending; it fires, \<open>connect\<close>
  is called again for the same URL, and the channel is open again.
\<close>

theorem reconnect_after_disconnect:
  "fst (run browser faulty
         [Call_connect ''ws://host'', Socket_open 0, Call_disconnect, Socket_close 0,
          Timer_fires 0, Socket_open 1] new_BrowserChannel)
     = [ConnectCalled ''ws://host'', ConnectResolved 0,
        SetTimeout 1000 ''ws://host'', DisconnectResolved,
        ConnectCalled ''ws://host'', ConnectResolved 1]
   \<and> isOpen (snd (run browser faulty
         [Call_connect ''ws://host'', Socket_open 0, Call_disconnect, Socket_close 0,
          Timer_fires 0, Socket_open 1] new_BrowserChannel))"
  by (simp add: browser_simps isOpen_def)

section \<open>Exponential backoff\<close>

lemma run_append:
  "run P beh (xs @ ys) w =
     (fst (run P beh xs w) @ fst (run P beh ys (snd (run P beh xs w))),
      snd (run P beh ys (snd (run P beh xs w))))"
  by (induction xs arbitrary: w) (simp_all add: Let_def split: prod.splits)

lemma timeouts_append [simp]: "timeouts (es @ es') = timeouts es @ timeouts es'"
  by (induction es rule: timeouts.induct) simp_all

lemma connects_append [simp]: "connects (es @ es') = connects es @ connects es'"
  by (induction es rule: connects.induct) simp_all

lemma socket_error_effect:
  assumes "lookup (sockets w) s = Some sock"
  shows "snd (socket_error s w)
           = w\<lparr>sockets := (sockets w)[s := sock\<lparr>connectPromise :=
                 (if readyState sock \<noteq> CLOSED \<and> connectPromise sock = Pending
                  then Rejected (Error ''WebSocket error'') else connectPromise sock)\<rparr>]\<rparr>
       \<and> timeouts (fst (socket_error s w)) = [] \<and> connects (fst (socket_error s w)) = []"
proof (cases "readyState sock \<noteq> CLOSED \<and> connectPromise sock = Pending")
  case True
  with assms show ?thesis
    by (simp add: socket_error_def onerror_def settle_def)
next
  case False
  from assms have "(sockets w)[s := sock\<lparr>connectPromise := connectPromise sock\<rparr>] = sockets w"
    by (auto simp: lookup_def split: if_splits)
  then have "w\<lparr>sockets := (sockets w)[s := sock\<lparr>connectPromise := connectPromise sock\<rparr>]\<rparr> = w"
    by simp
  moreover from False assms have "socket_error s w = ([], w)"
    by (auto simp: socket_error_def onerror_def settle_def)
  ultimately show ?thesis using False by auto
qed

lemma failing_round_retry:
  assumes r: "retrying P u s w" and budget: "int (reconnectAttempts w) < maxReconnectAttempts w"
  shows "timeouts (fst (run P beh [Socket_error s, Socket_close s, Timer_fires 0] w))
           = [(reconnectDelay w * 2 ^ reconnectAttempts w, u)]
       \<and> connects (fst (run P beh [Socket_error s, Socket_close s, Timer_fires 0] w)) = [u]
       \<and> retrying P u (Suc s) (snd (run P beh [Socket_error s, Socket_close s, Timer_fires 0] w))
       \<and> reconnectAttempts (snd (run P beh [Socket_error s, Socket_close s, Timer_fires 0] w))
           = Suc (reconnectAttempts w)
       \<and> maxReconnectAttempts (snd (run P beh [Socket_error s, Socket_close s, Timer_fires 0] w))
           = maxReconnectAttempts w
       \<and> reconnectDelay (snd (run P beh [Socket_error s, Socket_close s, Timer_fires 0] w))
           = reconnectDelay w"
proof -
  from r have l: "lookup (sockets w) s = Some (sockets w ! s)"
    by (simp add: retrying_def lookup_def)
  obtain es w1 where e0: "socket_error s w = (es, w1)"
    by (cases "socket_error s w")
  obtain p where
    e: "w1 = w\<lparr>sockets := (sockets w)[s := (sockets w ! s)\<lparr>connectPromise := p\<rparr>]\<rparr>"
      "timeouts es = []" "connects es = []"
    using socket_error_effect[OF l] e0 by simp
  show ?thesis
    using r budget e0 e
    by (simp add: retrying_def socket_close_def onclose_def timer_fires_def reconnect_def
        connect_def this_ws_def lookup_def new_WebSocket_def Let_def nth_append)
qed

lemma failing_round_exhausted:
  assumes r: "retrying P u s w" and budget: "\<not> int (reconnectAttempts w) < maxReconnectAttempts w"
  shows "timeouts (fst (run P beh [Socket_error s, Socket_close s, Timer_fires 0] w)) = []
       \<and> connects (fst (run P beh [Socket_error s, Socket_close s, Timer_fires 0] w)) = []
       \<and> timers (snd (run P beh [Socket_error s, Socket_close s, Timer_fires 0] w)) = []
       \<and> length (sockets (snd (run P beh [Socket_error s, Socket_close s, Timer_fires 0] w))) = Suc s"
proof -
  from r have l: "lookup (sockets w) s = Some (sockets w ! s)"
    by (simp add: retrying_def lookup_def)
  obtain es w1 where e0: "socket_error s w = (es, w1)"
    by (cases "socket_error s w")
  obtain p where
    e: "w1 = w\<lparr>sockets := (sockets w)[s := (sockets w ! s)\<lparr>connectPromise := p\<rparr>]\<rparr>"
      "timeouts es = []" "connects es = []"
    using socket_error_effect[OF l] e0 by simp
  show ?thesis
    using r budget e0 e
    by (simp add: retrying_def socket_close_def onclose_def timer_fires_def lookup_def Let_def)
qed

lemma failing_rounds_dead:
  "timers w = [] \<Longrightarrow> length (sockets w) \<le> s \<Longrightarrow> run P beh (failing_rounds k s) w = ([], w)"
  by (induction k arbitrary: s)
     (simp_all add: socket_error_def socket_close_def timer_fires_def lookup_def)

lemma failing_rounds_unfold:
  "run P beh (failing_rounds (Suc k) s) w =
     (fst (run P beh [Socket_error s, Socket_close s, Timer_fires 0] w)
        @ fst (run P beh (failing_rounds k (Suc s)) (snd (run P beh [Socket_error s, Socket_close s, Timer_fires 0] w))),
      snd (run P beh (failing_rounds k (Suc s)) (snd (run P beh [Socket_error s, Socket_close s, Timer_fires 0] w))))"
  using run_append[of P beh "[Socket_error s, Socket_close s, Timer_fires 0]" "failing_rounds k (Suc s)" w]
  by simp

lemma failing_rounds_backoff:
  "retrying P u s w \<Longrightarrow>
   timeouts (fst (run P beh (failing_rounds k s) w))
     = map (\<lambda>i. (reconnectDelay w * 2 ^ i, u))
         [reconnectAttempts w ..< min (reconnectAttempts w + k) (nat (maxReconnectAttempts w))]
   \<and> connects (fst (run P beh (failing_rounds k s) w))
     = replicate (min (reconnectAttempts w + k) (nat (maxReconnectAttempts w)) - reconnectAttempts w) u
   \<and> timers (snd (run P beh (failing_rounds k s) w)) = []"
proof (induction k arbitrary: s w)
  case 0
  then show ?case by (simp add: retrying_def)
next
  case (Suc k)
  let ?round = "run P beh [Socket_error s, Socket_close s, Timer_fires 0] w"
  show ?case
  proof (cases "int (reconnectAttempts w) < maxReconnectAttempts w")
    case True
    note R = failing_round_retry[OF Suc.prems True, of beh]
    from R have r': "retrying P u (Suc s) (snd ?round)" by blast
    from True have lt: "reconnectAttempts w < nat (maxReconnectAttempts w)" by linarith
    then have m: "min (reconnectAttempts w + Suc k) (nat (maxReconnectAttempts w))
        = min (Suc (reconnectAttempts w) + k) (nat (maxReconnectAttempts w))"
      by simp
    have up: "[reconnectAttempts w ..< min (Suc (reconnectAttempts w) + k) (nat (maxReconnectAttempts w))]
        = reconnectAttempts w # [Suc (reconnectAttempts w) ..< min (Suc (reconnectAttempts w) + k) (nat (maxReconnectAttempts w))]"
      using lt by (simp add: upt_conv_Cons)
    have rp: "replicate (min (Suc (reconnectAttempts w) + k) (nat (maxReconnectAttempts w)) - reconnectAttempts w) u
        = u # replicate (min (Suc (reconnectAttempts w) + k) (nat (maxReconnectAttempts w)) - Suc (reconnectAttempts w)) u"
    proof -
      from lt have "min (Suc (reconnectAttempts w) + k) (nat (maxReconnectAttempts w)) - reconnectAttempts w
          = Suc (min (Suc (reconnectAttempts w) + k) (nat (maxReconnectAttempts w)) - Suc (reconnectAttempts w))"
        by simp
      then show ?thesis by simp
    qed
    show ?thesis
      unfolding failing_rounds_unfold m
      using Suc.IH[OF r'] R up rp by simp
  next
    case False
    note R = failing_round_exhausted[OF Suc.prems False, of beh]
    from R have dead: "run P beh (failing_rounds k (Suc s)) (snd ?round) = ([], snd ?round)"
      by (intro failing_rounds_dead) simp_all
    from False have "nat (maxReconnectAttempts w) \<le> reconnectAttempts w" by linarith
    then show ?thesis
      unfolding failing_rounds_unfold dead using R by simp
  qed
qed

lemma run_Cons:
  "run P beh (ev # evs) w =
     (fst (step P beh ev w) @ fst (run P beh evs (snd (step P beh ev w))),
      snd (run P beh evs (snd (step P beh ev w))))"
  by (simp add: Let_def split: prod.splits)

lemma connect_effects: "fst (snd (connect P u w)) = [ConnectCalled u]"
  by (simp add: connect_def split: option.splits)

lemma connect_attempts: "reconnectAttempts (snd (snd (connect P u w))) = reconnectAttempts w"
  by (simp add: connect_def split: option.splits)

lemma timer_fires_reconnects:
  assumes "lookup (timers w) n = Some (delay, u)"
  shows "fst (timer_fires P n w) = [ConnectCalled u]
       \<and> reconnectAttempts (snd (timer_fires P n w)) = Suc (reconnectAttempts w)"
  using assms by (simp add: timer_fires_def reconnect_def connect_effects connect_attempts)

lemma socket_open_resets:
  assumes "lookup (sockets w) s = Some sock" and "readyState sock = CONNECTING"
  shows "reconnectAttempts (snd (socket_open s w)) = 0 \<and> isOpen (snd (socket_open s w))"
  using assms
  by (simp add: socket_open_def onopen_def settle_def isOpen_def split: option.splits)

lemma socket_close_schedules:
  assumes "lookup (sockets w) s = Some sock" and "readyState sock \<noteq> CLOSED"
  shows "timeouts (fst (socket_close s w))
           = (if int (reconnectAttempts w) < maxReconnectAttempts w
              then [(reconnectDelay w * 2 ^ reconnectAttempts w, url sock)] else [])
       \<and> timers (snd (socket_close s w)) = timers w @ timeouts (fst (socket_close s w))
       \<and> connects (fst (socket_close s w)) = []
       \<and> reconnectAttempts (snd (socket_close s w)) = reconnectAttempts w
       \<and> \<not> isOpen (snd (socket_close s w))"
  using socket_close_open[OF assms refl] by (simp add: Let_def isOpen_def)

text \<open>
  Claim C2. At every close event of a socket, with \<open>n\<close> reconnect attempts counted and
  the policy \<open>(maxAttempts, baseDelay)\<close>: if \<open>n < maxAttempts\<close> exactly one timer is set,
  with delay \<open>baseDelay * 2 ^ n\<close> and the URL of the closed socket, and otherwise none; the
  counter is incremented when the timer fires, which then calls \<open>connect\<close> with that URL;
  and the open event of a socket resets the counter to 0. When every reconnect attempt
  fails, the delays of the timers set over any number of rounds are
  \<open>baseDelay * 2 ^ i\<close> for \<open>i\<close> from \<open>n\<close> up to \<open>maxAttempts - 1\<close>, one \<open>connect\<close> for each,
  and no timer is left pending.
\<close>

theorem reconnect_backoff:
  "(lookup (sockets w) s = Some sock \<and> readyState sock \<noteq> CLOSED \<longrightarrow>
      timeouts (fst (socket_close s w))
        = (if int (reconnectAttempts w) < maxReconnectAttempts w
           then [(reconnectDelay w * 2 ^ reconnectAttempts w, url sock)] else [])
      \<and> timers (snd (socket_close s w)) = timers w @ timeouts (fst (socket_close s w))
      \<and> connects (fst (socket_close s w)) = []
      \<and> reconnectAttempts (snd (socket_close s w)) = reconnectAttempts w)
   \<and> (lookup (timers w) n = Some (delay, u) \<longrightarrow>
        fst (timer_fires P n w) = [ConnectCalled u]
        \<and> reconnectAttempts (snd (timer_fires P n w)) = Suc (reconnectAttempts w))
   \<and> (lookup (sockets w) s = Some sock \<and> readyState sock = CONNECTING \<longrightarrow>
        reconnectAttempts (snd (socket_open s w)) = 0)
   \<and> (retrying P u' s w \<longrightarrow>
        timeouts (fst (run P beh (failing_rounds k s) w))
          = map (\<lambda>i. (reconnectDelay w * 2 ^ i, u'))
              [reconnectAttempts w ..< min (reconnectAttempts w + k) (nat (maxReconnectAttempts w))]
        \<and> connects (fst (run P beh (failing_rounds k s) w))
          = replicate (min (reconnectAttempts w + k) (nat (maxReconnectAttempts w)) - reconnectAttempts w) u'
        \<and> timers (snd (run P beh (failing_rounds k s) w)) = [])"
  using socket_close_schedules[of w s sock] timer_fires_reconnects[of w n delay u P]
    socket_open_resets[of w s sock] failing_rounds_backoff[of P u' s w beh k]
  by blast

lemma upt_3: "[0..<3] = [0, 1, 2]"
  by (simp add: upt_rec)

text \<open>
  Claim C2, witness: with \<open>maxAttempts = 3\<close> and \<open>baseDelay = 100\<close>, five failing rounds
  after an open connection set timers of 100, 200 and 400 ms and call \<open>connect\<close> three
  times, then nothing more.
\<close>

theorem reconnect_backoff_witness:
  "retrying browser ''ws://host'' 0 (setReconnectOptions 3 100 open_channel)
   \<and> timeouts (fst (run browser faulty (failing_rounds 5 0) (setReconnectOptions 3 100 open_channel)))
       = [(100, ''ws://host''), (200, ''ws://host''), (400, ''ws://host'')]
   \<and> connects (fst (run browser faulty (failing_rounds 5 0) (setReconnectOptions 3 100 open_channel)))
       = [''ws://host'', ''ws://host'', ''ws://host'']
   \<and> timers (snd (run browser faulty (failing_rounds 5 0) (setReconnectOptions 3 100 open_channel))) = []
   \<and> fst (timer_fires browser 0 (snd (socket_close 0 (setReconnectOptions 3 100 open_channel))))
       = [ConnectCalled ''ws://host'']
   \<and> reconnectAttempts (snd (timer_fires browser 0 (snd (socket_close 0 (setReconnectOptions 3 100 open_channel))))) = 1
   \<and> reconnectAttempts (snd (socket_open 1
        (snd (timer_fires browser 0 (snd (socket_close 0 (setReconnectOptions 3 100 open_channel))))))) = 0"
proof -
  let ?w = "setReconnectOptions 3 100 open_channel"
  let ?sock = "\<lparr> url = ''ws://host'', readyState = OPEN, sent = [],
                connectPromise = Fulfilled (), closeListeners = 0 \<rparr>"
  have r: "retrying browser ''ws://host'' 0 ?w"
    by (simp add: retrying_def setReconnectOptions_def open_channel_eq browser_def)
  have l: "lookup (sockets ?w) 0 = Some ?sock \<and> readyState ?sock \<noteq> CLOSED"
    by (simp add: setReconnectOptions_def open_channel_eq lookup_def)
  have f: "reconnectAttempts ?w = 0" "maxReconnectAttempts ?w = 3" "reconnectDelay ?w = 100" "timers ?w = []"
    by (simp_all add: setReconnectOptions_def open_channel_eq)
  note A = reconnect_backoff[where w="?w" and s=0 and sock="?sock" and P=browser and u'="''ws://host''"
      and beh=faulty and k=5]
  from A r f have rounds:
    "timeouts (fst (run browser faulty (failing_rounds 5 0) ?w))
       = [(100, ''ws://host''), (200, ''ws://host''), (400, ''ws://host'')]
     \<and> connects (fst (run browser faulty (failing_rounds 5 0) ?w))
       = [''ws://host'', ''ws://host'', ''ws://host'']
     \<and> timers (snd (run browser faulty (failing_rounds 5 0) ?w)) = []"
    by (simp add: upt_3 numeral_3_eq_3)
  from A l f have closed: "timers (snd (socket_close 0 ?w)) = [(100, ''ws://host'')]"
    by simp
  let ?w1 = "snd (socket_close 0 ?w)"
  from A l f have a1: "reconnectAttempts ?w1 = 0" by simp
  from closed have t: "lookup (timers ?w1) 0 = Some (100, ''ws://host'')"
    by (simp add: lookup_def)
  note B = reconnect_backoff[where w="?w1" and n=0 and delay=100 and u="''ws://host''" and P=browser]
  from B t a1 have fired: "fst (timer_fires browser 0 ?w1) = [ConnectCalled ''ws://host'']
      \<and> reconnectAttempts (snd (timer_fires browser 0 ?w1)) = 1"
    by simp
  let ?w2 = "snd (timer_fires browser 0 ?w1)"
  have s1: "lookup (sockets ?w2) 1 = Some (new_WebSocket ''ws://host'') \<and> readyState (new_WebSocket ''ws://host'') = CONNECTING"
    by (simp add: browser_simps open_channel_eq)
  note C = reconnect_backoff[where w="?w2" and s=1 and sock="new_WebSocket ''ws://host''"]
  from C s1 have opened: "reconnectAttempts (snd (socket_open 1 ?w2)) = 0"
    by blast
  from r rounds fired opened show ?thesis by blast
qed



section \<open>The connection flag\<close>

lemma consistent_cong:
  assumes "ws w' = ws w" and "map readyState (sockets w') = map readyState (sockets w)"
    and "isConnected w' = isConnected w"
  shows "consistent w' = consistent w"
proof -
  from assms(2) have len: "length (sockets w') = length (sockets w)"
    by (metis length_map)
  from assms(2) have nth: "\<And>i. i < length (sockets w) \<Longrightarrow> readyState (sockets w' ! i) = readyState (sockets w ! i)"
    by (metis len nth_map)
  from len have emp: "sockets w' = [] \<longleftrightarrow> sockets w = []" by auto
  show ?thesis
    unfolding consistent_def assms(1) assms(3) len emp
    by (auto split: option.splits simp: nth)
qed

lemma consistent_new: "consistent new_BrowserChannel"
  by (simp add: consistent_def new_BrowserChannel_def)

lemma readyState_cases: "r \<noteq> CONNECTING \<Longrightarrow> r \<noteq> OPEN \<Longrightarrow> r = CLOSING \<or> r = CLOSED"
  by (cases r) simp_all

lemma consistent_connect:
  assumes "consistent w" and "isConnected w' = isConnected w" and "ws w' = ws w" and "sockets w' = sockets w"
  shows "consistent (snd (snd (connect P u w')))"
proof -
  have c': "consistent w'" using assms consistent_cong[of w' w] by simp
  show ?thesis
  proof (cases "ws w'")
    case None
    with c' show ?thesis
      by (auto simp: connect_def consistent_def this_ws_def new_WebSocket_def split: option.splits)
  next
    case (Some c)
    with c' have c: "c < length (sockets w')" by (simp add: consistent_def)
    show ?thesis
    proof (cases "readyState (sockets w' ! c) = CONNECTING \<or> readyState (sockets w' ! c) = OPEN")
      case True
      with Some c c' show ?thesis
        by (auto simp: connect_def this_ws_def lookup_def)
    next
      case False
      then have cl: "readyState (sockets w' ! c) = CLOSING \<or> readyState (sockets w' ! c) = CLOSED"
        by (simp add: readyState_cases)
      show ?thesis
      proof (cases "WebSocket_new P u")
        case None
        have "\<forall>i < Suc (length (sockets w')). i \<noteq> length (sockets w') \<longrightarrow>
            readyState ((sockets w' @ [new_WebSocket u]) ! i) = CLOSING
            \<or> readyState ((sockets w' @ [new_WebSocket u]) ! i) = CLOSED"
        proof (intro allI impI)
          fix i assume "i < Suc (length (sockets w'))" "i \<noteq> length (sockets w')"
          then have i: "i < length (sockets w')" by simp
          show "readyState ((sockets w' @ [new_WebSocket u]) ! i) = CLOSING
            \<or> readyState ((sockets w' @ [new_WebSocket u]) ! i) = CLOSED"
          proof (cases "i = c")
            case True
            with cl i show ?thesis by (simp add: nth_append)
          next
            case False
            with c' Some i show ?thesis by (simp add: consistent_def nth_append)
          qed
        qed
        with None False Some c show ?thesis
          by (simp add: connect_def this_ws_def lookup_def consistent_def new_WebSocket_def)
      next
        case (Some e)
        with False \<open>ws w' = Some c\<close> c c' show ?thesis
          by (simp add: connect_def this_ws_def lookup_def)
      qed
    qed
  qed
qed

lemma consistent_disconnect: "consistent w \<Longrightarrow> consistent (snd (disconnect w))"
proof -
  assume c: "consistent w"
  show ?thesis
  proof (cases "ws w")
    case None
    with c show ?thesis by (simp add: disconnect_def)
  next
    case (Some s)
    with c have s: "s < length (sockets w)" by (simp add: consistent_def)
    show ?thesis
    proof (cases "readyState (sockets w ! s) = CLOSED")
      case True
      with Some s c show ?thesis by (simp add: disconnect_def lookup_def)
    next
      case False
      let ?sock = "WebSocket_close ((sockets w ! s)\<lparr>closeListeners := Suc (closeListeners (sockets w ! s))\<rparr>)"
      have d: "snd (disconnect w) = w\<lparr>sockets := (sockets w)[s := ?sock]\<rparr>"
        using Some s False by (simp add: disconnect_def lookup_def)
      have r: "readyState ?sock \<noteq> CLOSED"
        using False by (simp add: WebSocket_close_def)
      show ?thesis
        unfolding d using c Some s r
        by (auto simp: consistent_def nth_list_update)
    qed
  qed
qed

lemma consistent_socket_open: "consistent w \<Longrightarrow> consistent (snd (socket_open s w))"
proof -
  assume c: "consistent w"
  show ?thesis
  proof (cases "s < length (sockets w) \<and> readyState (sockets w ! s) = CONNECTING")
    case False
    with c show ?thesis by (auto simp: socket_open_def lookup_def)
  next
    case True
    with c have cur: "ws w = Some s"
      by (cases "ws w") (auto simp: consistent_def)
    from True have "snd (socket_open s w) =
        w\<lparr>sockets := (sockets w)[s := (sockets w ! s)\<lparr>readyState := OPEN, connectPromise :=
             (if connectPromise (sockets w ! s) = Pending then Fulfilled ()
              else connectPromise (sockets w ! s))\<rparr>],
          isConnected := True, reconnectAttempts := 0\<rparr>"
      by (simp add: socket_open_def onopen_def settle_def lookup_def)
    with c cur True show ?thesis
      by (auto simp: consistent_def nth_list_update)
  qed
qed

lemma consistent_socket_error: "consistent w \<Longrightarrow> consistent (snd (socket_error s w))"
proof (cases "lookup (sockets w) s")
  case None
  assume "consistent w"
  with None show ?thesis by (simp add: socket_error_def)
next
  case (Some sock)
  assume c: "consistent w"
  from Some have s: "s < length (sockets w)" "sock = sockets w ! s"
    by (auto simp: lookup_def split: if_splits)
  have "map readyState (sockets (snd (socket_error s w))) = map readyState (sockets w)"
    using socket_error_effect[OF Some] s
    by (simp add: map_update list_update_same_conv)
  moreover have "ws (snd (socket_error s w)) = ws w" "isConnected (snd (socket_error s w)) = isConnected w"
    using socket_error_effect[OF Some] by simp_all
  ultimately show ?thesis using c consistent_cong by blast
qed

lemma consistent_socket_close: "consistent w \<Longrightarrow> consistent (snd (socket_close s w))"
proof (cases "lookup (sockets w) s")
  case None
  assume "consistent w"
  with None show ?thesis by (simp add: socket_close_def)
next
  case (Some sock)
  assume c: "consistent w"
  from Some have s: "s < length (sockets w)" "sock = sockets w ! s"
    by (auto simp: lookup_def split: if_splits)
  show ?thesis
  proof (cases "readyState sock = CLOSED")
    case True
    with Some c show ?thesis by (simp add: socket_close_def)
  next
    case False
    from socket_close_open[OF Some False refl] c s show ?thesis
      by (cases "ws w") (auto simp: consistent_def Let_def nth_list_update)
  qed
qed

lemma consistent_send:
  "consistent w \<Longrightarrow> consistent (snd (snd (sendMessage (BrowserChannel_send P now) d data w)))"
proof -
  assume c: "consistent w"
  have "ws w' = ws w \<and> map readyState (sockets w') = map readyState (sockets w) \<and> isConnected w' = isConnected w"
    if "w' = snd (snd (sendMessage (BrowserChannel_send P now) d data w))" for w'
    using that
    by (auto simp: sendMessage_def BrowserChannel_send_def lookup_def map_update list_update_same_conv
        split: sum.splits option.splits)
  with c consistent_cong show ?thesis by blast
qed

lemma consistent_step: "consistent w \<Longrightarrow> consistent (snd (step P beh ev w))"
proof (cases ev)
  case (Call_connect u)
  assume "consistent w"
  then show ?thesis using consistent_connect[of w w P u] Call_connect by simp
next
  case Call_disconnect
  assume "consistent w"
  then show ?thesis using consistent_disconnect Call_disconnect by simp
next
  case (Call_setReconnectOptions m d)
  assume "consistent w"
  then show ?thesis
    using consistent_cong[of "setReconnectOptions m d w" w] Call_setReconnectOptions
    by (simp add: setReconnectOptions_def)
next
  case (Call_sendMessage d data now)
  assume "consistent w"
  then show ?thesis using consistent_send Call_sendMessage by simp
next
  case (Call_on k h)
  assume "consistent w"
  then show ?thesis
    using consistent_cong[of "on k h w" w] Call_on
    by (simp add: on_def Let_def split: option.splits)
next
  case (Call_off k h)
  assume "consistent w"
  then show ?thesis
    using consistent_cong[of "off k h w" w] Call_off
    by (simp add: off_def Let_def split: option.splits)
next
  case (Socket_open s)
  assume "consistent w"
  then show ?thesis using consistent_socket_open Socket_open by simp
next
  case (Socket_error s)
  assume "consistent w"
  then show ?thesis using consistent_socket_error Socket_error by simp
next
  case (Socket_close s)
  assume "consistent w"
  then show ?thesis using consistent_socket_close Socket_close by simp
next
  case (Socket_message s raw now)
  assume "consistent w"
  then show ?thesis
    using Socket_message handleMessage_state[of P beh now raw w]
    by (simp add: socket_message_def onmessage_def split: option.splits)
next
  case (Timer_fires n)
  assume c: "consistent w"
  show ?thesis
  proof (cases "lookup (timers w) n")
    case None
    with c Timer_fires show ?thesis by (simp add: timer_fires_def)
  next
    case (Some t)
    obtain delay u where t: "t = (delay, u)" by (cases t)
    from c Some t Timer_fires show ?thesis
      using consistent_connect[of w "w\<lparr>timers := take n (timers w) @ drop (Suc n) (timers w),
          reconnectAttempts := Suc (reconnectAttempts w)\<rparr>" P u]
      by (simp add: timer_fires_def reconnect_def)
  qed
qed

lemma consistent_run: "consistent w \<Longrightarrow> consistent (snd (run P beh evs w))"
proof (induction evs arbitrary: w)
  case Nil
  then show ?case by simp
next
  case (Cons ev evs)
  from Cons.prems have "consistent (snd (step P beh ev w))" by (rule consistent_step)
  then have "consistent (snd (run P beh evs (snd (step P beh ev w))))" by (rule Cons.IH)
  then show ?case by (simp add: run_Cons del: run.simps(2))
qed

section \<open>The registry across connections\<close>

text \<open>
  Only \<open>on\<close> and \<open>off\<close> change the registry: it survives closing and reconnecting, and in
  every channel reached from a new one each handler set holds a handler once.
\<close>

lemma connect_messageHandlers: "messageHandlers (snd (snd (connect P u w))) = messageHandlers w"
  by (simp add: connect_def split: option.splits)

lemma settle_messageHandlers: "messageHandlers (snd (settle s p e w)) = messageHandlers w"
  by (simp add: settle_def split: option.splits)

lemma send_messageHandlers:
  "messageHandlers (snd (snd (sendMessage (BrowserChannel_send P now) d data w))) = messageHandlers w"
  by (simp add: sendMessage_def BrowserChannel_send_def split: sum.splits option.splits)

lemma step_messageHandlers:
  "messageHandlers (snd (step P beh ev w)) =
     (case ev of
        Call_on k h \<Rightarrow> messageHandlers (on k h w)
      | Call_off k h \<Rightarrow> messageHandlers (off k h w)
      | _ \<Rightarrow> messageHandlers w)"
proof (cases ev)
  case (Socket_close s)
  then show ?thesis
    by (simp add: socket_close_def onclose_def Let_def split: option.splits)
next
  case (Socket_message s raw now)
  then show ?thesis
    using handleMessage_state[of P beh now raw w]
    by (simp add: socket_message_def onmessage_def split: option.splits)
qed (simp_all add: connect_messageHandlers settle_messageHandlers send_messageHandlers disconnect_def
      setReconnectOptions_def socket_open_def onopen_def socket_error_def
      onerror_def timer_fires_def reconnect_def split: option.splits prod.splits)

lemma registry_ok_cong: "messageHandlers c' = messageHandlers c \<Longrightarrow> registry_ok c' = registry_ok c"
  by (simp add: registry_ok_def)

lemma registry_ok_step: "registry_ok w \<Longrightarrow> registry_ok (snd (step P beh ev w))"
proof (cases ev)
  case (Call_on k h)
  assume "registry_ok w"
  then show ?thesis using Call_on by (simp add: registry_ok_on)
next
  case (Call_off k h)
  assume "registry_ok w"
  then show ?thesis using Call_off by (simp add: registry_ok_off)
qed (use step_messageHandlers[of P beh ev w] registry_ok_cong[of "snd (step P beh ev w)" w] in auto)

lemma registry_ok_run: "registry_ok w \<Longrightarrow> registry_ok (snd (run P beh evs w))"
proof (induction evs arbitrary: w)
  case Nil
  then show ?case by simp
next
  case (Cons ev evs)
  from Cons.prems have "registry_ok (snd (step P beh ev w))" by (rule registry_ok_step)
  then have "registry_ok (snd (run P beh evs (snd (step P beh ev w))))" by (rule Cons.IH)
  then show ?case by (simp add: run_Cons del: run.simps(2))
qed

lemma registry_ok_reachable: "registry_ok (snd (run P beh evs new_BrowserChannel))"
  by (intro registry_ok_run) (simp add: registry_ok_def new_BrowserChannel_def)

lemma run_snoc:
  "run P beh (evs @ [ev]) w =
     (fst (run P beh evs w) @ fst (step P beh ev (snd (run P beh evs w))),
      snd (step P beh ev (snd (run P beh evs w))))"
  by (simp add: run_append[of P beh evs "[ev]" w])

lemma connect_isConnected: "isConnected (snd (snd (connect P u w))) = isConnected w"
  by (simp add: connect_def split: option.splits)

lemma settle_isConnected: "isConnected (snd (settle s p e w)) = isConnected w"
  by (simp add: settle_def split: option.splits)

lemma send_isConnected:
  "isConnected (snd (snd (sendMessage (BrowserChannel_send P now) d data w))) = isConnected w"
  by (simp add: sendMessage_def BrowserChannel_send_def split: sum.splits option.splits)

lemma step_isConnected:
  "isConnected (snd (step P beh ev w)) =
     (case ev of
        Socket_open s \<Rightarrow>
          (case lookup (sockets w) s of
             None \<Rightarrow> isConnected w
           | Some sock \<Rightarrow> if readyState sock = CONNECTING then True else isConnected w)
      | Socket_close s \<Rightarrow>
          (case lookup (sockets w) s of
             None \<Rightarrow> isConnected w
           | Some sock \<Rightarrow> if readyState sock = CLOSED then isConnected w else False)
      | _ \<Rightarrow> isConnected w)"
proof (cases ev)
  case (Socket_close s)
  then show ?thesis
    by (simp add: socket_close_def onclose_def Let_def split: option.splits)
next
  case (Socket_message s raw now)
  then show ?thesis
    using handleMessage_state[of P beh now raw w]
    by (simp add: socket_message_def onmessage_def split: option.splits)
qed (simp_all add: connect_isConnected settle_isConnected send_isConnected disconnect_def
      setReconnectOptions_def on_def off_def Let_def socket_open_def onopen_def socket_error_def
      onerror_def timer_fires_def reconnect_def split: option.splits prod.splits)

lemma step_opens:
  assumes "\<not> isOpen w" and "isOpen (snd (step P beh ev w))"
  shows "\<exists>s sock. ev = Socket_open s \<and> lookup (sockets w) s = Some sock \<and> readyState sock = CONNECTING"
  using assms unfolding isOpen_def step_isConnected
  by (cases ev) (auto split: option.splits if_splits)

lemma run_opens:
  "isOpen (snd (run P beh evs new_BrowserChannel)) \<Longrightarrow>
   \<exists>evs1 s evs2 sock. evs = evs1 @ Socket_open s # evs2
     \<and> lookup (sockets (snd (run P beh evs1 new_BrowserChannel))) s = Some sock
     \<and> readyState sock = CONNECTING"
proof (induction evs rule: rev_induct)
  case Nil
  then show ?case by (simp add: isOpen_def new_BrowserChannel_def)
next
  case (snoc ev evs)
  let ?w = "snd (run P beh evs new_BrowserChannel)"
  from snoc.prems have after: "isOpen (snd (step P beh ev ?w))" by (simp add: run_snoc)
  show ?case
  proof (cases "isOpen ?w")
    case True
    from snoc.IH[OF True] obtain evs1 s evs2 sock where
      "evs = evs1 @ Socket_open s # evs2"
      "lookup (sockets (snd (run P beh evs1 new_BrowserChannel))) s = Some sock"
      "readyState sock = CONNECTING"
      by blast
    then have "evs @ [ev] = evs1 @ Socket_open s # (evs2 @ [ev])
        \<and> lookup (sockets (snd (run P beh evs1 new_BrowserChannel))) s = Some sock
        \<and> readyState sock = CONNECTING"
      by simp
    then show ?thesis by blast
  next
    case False
    from step_opens[OF False after] obtain s sock where
      "ev = Socket_open s" "lookup (sockets ?w) s = Some sock" "readyState sock = CONNECTING"
      by blast
    then have "evs @ [ev] = evs @ Socket_open s # []
        \<and> lookup (sockets (snd (run P beh evs new_BrowserChannel))) s = Some sock
        \<and> readyState sock = CONNECTING"
      by simp
    then show ?thesis by blast
  qed
qed

lemma dispatch_no_resolution: "DisconnectResolved \<notin> set (snd (dispatch beh m hs))"
  by (induction hs) (auto split: promise.splits prod.splits)

lemma dispatch_no_resolution': "dispatch beh m hs = (r, es) \<Longrightarrow> DisconnectResolved \<notin> set es"
  using dispatch_no_resolution[of beh m hs] by simp

lemma handleMessage_no_resolution: "DisconnectResolved \<notin> set (fst (snd (handleMessage P beh now raw c)))"
  by (auto simp: handleMessage_def handleMessage_try_def
      split: sum.splits option.splits prod.splits dest: dispatch_no_resolution')

lemma settle_no_resolution: "e \<noteq> DisconnectResolved \<Longrightarrow> DisconnectResolved \<notin> set (fst (settle s p e w))"
  by (simp add: settle_def split: option.splits)

lemma send_no_resolution:
  "DisconnectResolved \<notin> set (fst (snd (sendMessage (BrowserChannel_send P now) d data w)))"
  by (simp add: sendMessage_def BrowserChannel_send_def split: sum.splits option.splits)

lemma disconnect_resolved_closed:
  assumes "consistent w" and "DisconnectResolved \<in> set (fst (step P beh ev w))"
  shows "\<not> isOpen (snd (step P beh ev w))"
proof (cases ev)
  case (Call_connect u)
  with assms(2) show ?thesis by (simp add: connect_effects)
next
  case Call_disconnect
  show ?thesis
  proof (cases "ws w")
    case None
    with assms(1) Call_disconnect show ?thesis
      by (simp add: disconnect_def consistent_def isOpen_def)
  next
    case (Some s)
    with assms(1) have s: "lookup (sockets w) s = Some (sockets w ! s)"
      by (simp add: consistent_def lookup_def)
    show ?thesis
    proof (cases "readyState (sockets w ! s) = CLOSED")
      case True
      with assms(1) Some s Call_disconnect show ?thesis
        by (simp add: disconnect_def consistent_def isOpen_def)
    next
      case False
      with assms(2) Some s Call_disconnect show ?thesis
        by (simp add: disconnect_def)
    qed
  qed
next
  case (Call_setReconnectOptions m d)
  with assms(2) show ?thesis by simp
next
  case (Call_sendMessage d data now)
  with assms(2) show ?thesis using send_no_resolution by simp
next
  case (Call_on k h)
  with assms(2) show ?thesis by simp
next
  case (Call_off k h)
  with assms(2) show ?thesis by simp
next
  case (Socket_open s)
  with assms(2) show ?thesis
    by (auto simp: socket_open_def onopen_def settle_no_resolution split: option.splits if_splits)
next
  case (Socket_error s)
  with assms(2) show ?thesis
    by (auto simp: socket_error_def onerror_def settle_no_resolution split: option.splits if_splits)
next
  case (Socket_close s)
  with assms(2) show ?thesis
    by (auto simp: socket_close_def onclose_def Let_def isOpen_def split: option.splits if_splits)
next
  case (Socket_message s raw now)
  with assms(2) show ?thesis
    using handleMessage_no_resolution[of P beh now raw w]
    by (auto simp: socket_message_def onmessage_def split: option.splits if_splits)
next
  case (Timer_fires n)
  with assms(2) show ?thesis
    by (auto simp: timer_fires_def reconnect_def connect_effects split: option.splits)
qed

text \<open>
  Claim C8. \<open>isOpen()\<close> returns the connection flag and nothing else. It is false for a
  new channel. A task of the event loop turns it from false to true only as the open event
  of a socket that was connecting, so that at every point of every run from a new channel at
  which it is true, such an open event lies behind. It is false whenever the promise of
  \<open>disconnect()\<close> resolves, at once or at the close event, and after every close event of a
  socket, whether or not a reconnect is scheduled.
\<close>

theorem isOpen_follows_socket:
  "isOpen w = isConnected w
   \<and> \<not> isOpen new_BrowserChannel
   \<and> (\<not> isOpen w \<and> isOpen (snd (step P beh ev w)) \<longrightarrow>
        (\<exists>s sock. ev = Socket_open s \<and> lookup (sockets w) s = Some sock \<and> readyState sock = CONNECTING))
   \<and> (isOpen (snd (run P beh evs new_BrowserChannel)) \<longrightarrow>
        (\<exists>evs1 s evs2 sock. evs = evs1 @ Socket_open s # evs2
           \<and> lookup (sockets (snd (run P beh evs1 new_BrowserChannel))) s = Some sock
           \<and> readyState sock = CONNECTING))
   \<and> (DisconnectResolved \<in> set (fst (step P beh ev (snd (run P beh evs new_BrowserChannel)))) \<longrightarrow>
        \<not> isOpen (snd (step P beh ev (snd (run P beh evs new_BrowserChannel)))))
   \<and> (lookup (sockets w) s = Some sock \<and> readyState sock \<noteq> CLOSED \<longrightarrow>
        \<not> isOpen (snd (step P beh (Socket_close s) w)))"
proof -
  have "consistent (snd (run P beh evs new_BrowserChannel))"
    by (intro consistent_run consistent_new)
  from disconnect_resolved_closed[OF this, of P beh ev]
  have resolved: "DisconnectResolved \<in> set (fst (step P beh ev (snd (run P beh evs new_BrowserChannel)))) \<longrightarrow>
        \<not> isOpen (snd (step P beh ev (snd (run P beh evs new_BrowserChannel))))"
    by blast
  have closed: "\<not> isOpen (snd (step P beh (Socket_close s) w))"
    if "lookup (sockets w) s = Some sock" "readyState sock \<noteq> CLOSED"
    using socket_close_schedules[OF that] by simp
  have fresh: "\<not> isOpen new_BrowserChannel"
    by (simp add: isOpen_def new_BrowserChannel_def)
  show ?thesis
    using step_opens[of w P beh ev] run_opens[of P beh evs] resolved closed fresh
    by (simp add: isOpen_def)
qed

text \<open>
  Claim C8, witness: false while connecting, true after the open event, false when the
  close event resolves the promise of \<open>disconnect()\<close>, false after an unexpected close.
\<close>

theorem isOpen_follows_socket_witness:
  "\<not> isOpen (snd (run browser faulty [Call_connect ''ws://host''] new_BrowserChannel))
   \<and> isOpen (snd (run browser faulty [Call_connect ''ws://host'', Socket_open 0] new_BrowserChannel))
   \<and> DisconnectResolved \<in> set (fst (step browser faulty (Socket_close 0)
        (snd (run browser faulty [Call_connect ''ws://host'', Socket_open 0, Call_disconnect] new_BrowserChannel))))
   \<and> \<not> isOpen (snd (step browser faulty (Socket_close 0)
        (snd (run browser faulty [Call_connect ''ws://host'', Socket_open 0, Call_disconnect] new_BrowserChannel))))
   \<and> \<not> isOpen (snd (step browser faulty (Socket_close 0) open_channel))"
proof -
  have a: "\<not> isOpen (snd (run browser faulty [Call_connect ''ws://host''] new_BrowserChannel))"
    by (simp add: browser_simps isOpen_def)
  have b: "isOpen (snd (run browser faulty [Call_connect ''ws://host'', Socket_open 0] new_BrowserChannel))"
    by (simp add: browser_simps isOpen_def)
  have c: "DisconnectResolved \<in> set (fst (step browser faulty (Socket_close 0)
        (snd (run browser faulty [Call_connect ''ws://host'', Socket_open 0, Call_disconnect] new_BrowserChannel))))"
    by (simp add: browser_simps)
  note T = isOpen_follows_socket[where P=browser and beh=faulty and ev="Socket_close 0"
      and evs="[Call_connect ''ws://host'', Socket_open 0, Call_disconnect]"
      and w=open_channel and s=0
      and sock="\<lparr> url = ''ws://host'', readyState = OPEN, sent = [],
                connectPromise = Fulfilled (), closeListeners = 0 \<rparr>"]
  from T c have d: "\<not> isOpen (snd (step browser faulty (Socket_close 0)
        (snd (run browser faulty [Call_connect ''ws://host'', Socket_open 0, Call_disconnect] new_BrowserChannel))))"
    by blast
  have l: "lookup (sockets open_channel) 0 = Some \<lparr> url = ''ws://host'', readyState = OPEN, sent = [],
                connectPromise = Fulfilled (), closeListeners = 0 \<rparr>"
    by (simp add: open_channel_eq lookup_def)
  from T l have e: "\<not> isOpen (snd (step browser faulty (Socket_close 0) open_channel))"
    by simp
  from a b c d e show ?thesis by blast
qed

text \<open>
  Claim C10. \<open>PeerChannel.connect\<close> rejects for every argument with the error
  \<open>Use createOffer() or handleOffer() to establish peer connection\<close> and leaves the
  channel as it is: the handler registry, the connection flag, the peer connection, the
  data channel, the remote peer id and the pending ICE candidates.
\<close>

theorem PeerChannel_connect_rejects:
  "PeerChannel_connect u c
     = (Rejected (Error ''Use createOffer() or handleOffer() to establish peer connection''), c)
   \<and> messageHandlers (snd (PeerChannel_connect u c)) = messageHandlers c
   \<and> isOpen (snd (PeerChannel_connect u c)) = isOpen c
   \<and> peerConnection (snd (PeerChannel_connect u c)) = peerConnection c
   \<and> dataChannel (snd (PeerChannel_connect u c)) = dataChannel c
   \<and> remotePeerId (snd (PeerChannel_connect u c)) = remotePeerId c
   \<and> pendingIceCandidates (snd (PeerChannel_connect u c)) = pendingIceCandidates c"
  by (simp add: PeerChannel_connect_def)

end
